theory Spec2Isabelle
  imports Complex_Main "HOL-Library.Sublist" "HOL-Library.AList"
begin

section \<open>Text\<close>

text \<open>
  A Python \<open>str\<close> is modelled as a \<^typ>\<open>string\<close> whose characters are the code points
  0 to 255. On this range the Unicode notions used by the program are finite tables:
  \<open>str.isspace\<close> (also the regular expression class \<open>\s\<close>), \<open>str.lower\<close>, and the
  case folding done by \<open>re.IGNORECASE\<close>, which for the ASCII letters of the patterns below
  relates a letter to its other case only.
\<close>

definition is_space :: "char \<Rightarrow> bool" where
  "is_space c =
     (let n = (of_char c :: nat)
      in (9 \<le> n \<and> n \<le> 13) \<or> (28 \<le> n \<and> n \<le> 32) \<or> n = 133 \<or> n = 160)"

definition upper_chars :: string where
  "upper_chars = ''ABCDEFGHIJKLMNOPQRSTUVWXYZ'' @
    [CHR 0xC0, CHR 0xC1, CHR 0xC2, CHR 0xC3, CHR 0xC4, CHR 0xC5, CHR 0xC6, CHR 0xC7, CHR
     0xC8, CHR 0xC9, CHR 0xCA, CHR 0xCB, CHR 0xCC, CHR 0xCD, CHR 0xCE, CHR 0xCF, CHR 0xD0,
     CHR 0xD1, CHR 0xD2, CHR 0xD3, CHR 0xD4, CHR 0xD5, CHR 0xD6, CHR 0xD8, CHR 0xD9, CHR
     0xDA, CHR 0xDB, CHR 0xDC, CHR 0xDD, CHR 0xDE]"

definition lower_chars :: string where
  "lower_chars = ''abcdefghijklmnopqrstuvwxyz'' @
    [CHR 0xE0, CHR 0xE1, CHR 0xE2, CHR 0xE3, CHR 0xE4, CHR 0xE5, CHR 0xE6, CHR 0xE7, CHR
     0xE8, CHR 0xE9, CHR 0xEA, CHR 0xEB, CHR 0xEC, CHR 0xED, CHR 0xEE, CHR 0xEF, CHR 0xF0,
     CHR 0xF1, CHR 0xF2, CHR 0xF3, CHR 0xF4, CHR 0xF5, CHR 0xF6, CHR 0xF8, CHR 0xF9, CHR
     0xFA, CHR 0xFB, CHR 0xFC, CHR 0xFD, CHR 0xFE]"

definition lower_chr :: "char \<Rightarrow> char" where
  "lower_chr c = (case map_of (zip upper_chars lower_chars) c of None \<Rightarrow> c | Some d \<Rightarrow> d)"

definition py_lower :: "string \<Rightarrow> string" where
  "py_lower s = map lower_chr s"

definition lstrip :: "string \<Rightarrow> string" where
  "lstrip s = dropWhile is_space s"

definition rstrip :: "string \<Rightarrow> string" where
  "rstrip s = rev (dropWhile is_space (rev s))"

definition py_strip :: "string \<Rightarrow> string" where
  "py_strip s = rstrip (lstrip s)"

text \<open>\<open>text.split("\n")\<close>: never the empty list, one more line than newlines.\<close>

fun split_nl :: "string \<Rightarrow> string list" where
  "split_nl [] = [[]]"
| "split_nl (c # cs) =
     (if c = CHR 0x0A then [] # split_nl cs
      else (case split_nl cs of [] \<Rightarrow> [[c]] | l # ls \<Rightarrow> (c # l) # ls))"

text \<open>\<open>"\n".join(lines)\<close>.\<close>

fun join_nl :: "string list \<Rightarrow> string" where
  "join_nl [] = []"
| "join_nl [l] = l"
| "join_nl (l # m # ls) = l @ CHR 0x0A # join_nl (m # ls)"

text \<open>The substring test \<open>a in b\<close>.\<close>

definition py_in :: "string \<Rightarrow> string \<Rightarrow> bool" where
  "py_in a b = sublist a b"

section \<open>Marker grammar\<close>

datatype marker = SESSION_DATA | STORE_PERSONAL | STORE_PREFERENCE

fun open_tag :: "marker \<Rightarrow> string" where
  "open_tag SESSION_DATA = ''[SESSION_DATA]''"
| "open_tag STORE_PERSONAL = ''[STORE_PERSONAL]''"
| "open_tag STORE_PREFERENCE = ''[STORE_PREFERENCE]''"

fun close_tag :: "marker \<Rightarrow> string" where
  "close_tag SESSION_DATA = ''[/SESSION_DATA]''"
| "close_tag STORE_PERSONAL = ''[/STORE_PERSONAL]''"
| "close_tag STORE_PREFERENCE = ''[/STORE_PREFERENCE]''"

text \<open>
  \<open>tag_at ic t s\<close>: the literal \<open>t\<close> matches at the start of \<open>s\<close>; \<open>ic\<close> says whether the
  pattern was compiled with \<open>re.IGNORECASE\<close>.
\<close>

definition tag_at :: "bool \<Rightarrow> string \<Rightarrow> string \<Rightarrow> bool" where
  "tag_at ic t s =
     (if ic then map lower_chr (take (length t) s) = map lower_chr t
      else take (length t) s = t)"

text \<open>
  The tail \<open>.*?CLOSE\<close> of a pattern (with \<open>re.DOTALL\<close>): the shortest body followed by
  the closing tag. The result is the body and the text after the closing tag.
\<close>

fun find_close :: "bool \<Rightarrow> string \<Rightarrow> string \<Rightarrow> (string \<times> string) option" where
  "find_close ic cl [] = (if tag_at ic cl [] then Some ([], []) else None)"
| "find_close ic cl (x # xs) =
     (if tag_at ic cl (x # xs) then Some ([], drop (length cl) (x # xs))
      else map_option (\<lambda>(b, r). (x # b, r)) (find_close ic cl xs))"

text \<open>
  One attempt of the pattern \<open>OPEN(.*?)CLOSE\<close> at the start of \<open>s\<close>: the captured group
  and the text after the match.
\<close>

definition match_here :: "bool \<Rightarrow> marker \<Rightarrow> string \<Rightarrow> (string \<times> string) option" where
  "match_here ic k s =
     (if tag_at ic (open_tag k) s
      then find_close ic (close_tag k) (drop (length (open_tag k)) s)
      else None)"

lemma find_close_length: "find_close ic cl s = Some (b, r) \<Longrightarrow> length r \<le> length s"
  by (induction s arbitrary: b) (auto split: if_splits)

lemma open_tag_nonempty: "0 < length (open_tag k)"
  by (cases k) simp_all

lemma match_here_shorter:
  assumes "match_here ic k s = Some (b, r)"
  shows "length r < length s"
proof -
  from assms have t: "tag_at ic (open_tag k) s"
    and f: "find_close ic (close_tag k) (drop (length (open_tag k)) s) = Some (b, r)"
    by (auto simp: match_here_def split: if_splits)
  from t have "length (open_tag k) \<le> length s"
    by (auto simp: tag_at_def split: if_splits dest: arg_cong [where f = length])
  moreover from find_close_length [OF f]
  have "length r \<le> length s - length (open_tag k)"
    by simp
  moreover have "0 < length (open_tag k)"
    by (rule open_tag_nonempty)
  ultimately show ?thesis
    by linarith
qed

text \<open>
  \<open>PATTERN.finditer(raw)\<close> for \<open>OPEN(.*?)CLOSE\<close>: the captured groups of the
  non-overlapping matches, left to right. The scan tries each position in turn and resumes
  after the end of a match.
\<close>

function finditer :: "bool \<Rightarrow> marker \<Rightarrow> string \<Rightarrow> string list" where
  "finditer ic k [] = []"
| "finditer ic k (x # xs) =
     (case match_here ic k (x # xs) of
        Some (b, r) \<Rightarrow> b # finditer ic k r
      | None \<Rightarrow> finditer ic k xs)"
  by pat_completeness auto
termination
  by (relation "measure (\<lambda>(ic, k, s). length s)") (auto dest: match_here_shorter)

text \<open>\<open>STRIP_PATTERN.search(text)\<close>, as a truth value. Every strip pattern ignores case.\<close>

fun search_closed :: "marker \<Rightarrow> string \<Rightarrow> bool" where
  "search_closed k [] = False"
| "search_closed k (x # xs) = (match_here True k (x # xs) \<noteq> None \<or> search_closed k xs)"

text \<open>\<open>STRIP_PATTERN.sub("", text)\<close>: every non-overlapping match removed in one pass.\<close>

function sub_closed :: "marker \<Rightarrow> string \<Rightarrow> string" where
  "sub_closed k [] = []"
| "sub_closed k (x # xs) =
     (case match_here True k (x # xs) of
        Some (b, r) \<Rightarrow> sub_closed k r
      | None \<Rightarrow> x # sub_closed k xs)"
  by pat_completeness auto
termination
  by (relation "measure (\<lambda>(k, s). length s)") (auto dest: match_here_shorter)

lemma sub_closed_length: "length (sub_closed k s) \<le> length s"
proof (induction k s rule: sub_closed.induct)
  case (1 k)
  show ?case by simp
next
  case (2 k x xs)
  show ?case
  proof (cases "match_here True k (x # xs)")
    case None
    with 2 show ?thesis by simp
  next
    case (Some p)
    obtain b r where p: "p = (b, r)" by (cases p)
    from Some p 2 have "length (sub_closed k r) \<le> length r"
      by simp
    with Some p match_here_shorter [of True k "x # xs" b r] show ?thesis
      by simp
  qed
qed

lemma sub_closed_shorter: "search_closed k s \<Longrightarrow> length (sub_closed k s) < length s"
proof (induction k s rule: sub_closed.induct)
  case (1 k)
  then show ?case by simp
next
  case (2 k x xs)
  show ?case
  proof (cases "match_here True k (x # xs)")
    case None
    with 2 show ?thesis by simp
  next
    case (Some p)
    obtain b r where p: "p = (b, r)" by (cases p)
    from Some p sub_closed_length [of k r] match_here_shorter [of True k "x # xs" b r]
    show ?thesis by simp
  qed
qed

text \<open>\<open>while PATTERN.search(text): text = PATTERN.sub("", text)\<close>.\<close>

function strip_closed_loop :: "marker \<Rightarrow> string \<Rightarrow> string" where
  "strip_closed_loop k s =
     (if search_closed k s then strip_closed_loop k (sub_closed k s) else s)"
  by pat_completeness auto
termination
  by (relation "measure (\<lambda>(k, s). length s)") (auto dest: sub_closed_shorter)

declare strip_closed_loop.simps [simp del]

text \<open>
  \<open>ORPHAN_PATTERN.sub("", text)\<close> for \<open>OPEN.*$\<close> with \<open>re.DOTALL\<close>: the first opening tag
  and everything after it.
\<close>

fun sub_orphan :: "marker \<Rightarrow> string \<Rightarrow> string" where
  "sub_orphan k [] = []"
| "sub_orphan k (x # xs) =
     (if tag_at True (open_tag k) (x # xs) then [] else x # sub_orphan k xs)"

section \<open>JSON values and dictionaries\<close>

text \<open>
  A decoded JSON value. A Python \<open>dict\<close> keeps its keys in insertion order without
  duplicates and is an association list; \<open>d.update(p)\<close> overwrites a key in place and
  appends a new one.
\<close>

datatype json =
    JNull
  | JBool bool
  | JInt int
  | JFloat real
  | JStr string
  | JArr "json list"
  | JObj "(string \<times> json) list"

type_synonym dict = "(string \<times> json) list"

definition dict_update :: "dict \<Rightarrow> dict \<Rightarrow> dict" where
  "dict_update d p = fold (\<lambda>(k, v). AList.update k v) p d"

definition dict_get :: "dict \<Rightarrow> string \<Rightarrow> json option" where
  "dict_get d k = map_of d k"

text \<open>Python truthiness of a decoded value.\<close>

fun truthy :: "json \<Rightarrow> bool" where
  "truthy JNull = False"
| "truthy (JBool b) = b"
| "truthy (JInt i) = (i \<noteq> 0)"
| "truthy (JFloat r) = (r \<noteq> 0)"
| "truthy (JStr s) = (s \<noteq> [])"
| "truthy (JArr xs) = (xs \<noteq> [])"
| "truthy (JObj d) = (d \<noteq> [])"

section \<open>Extractors\<close>

text \<open>
  \<open>json.loads\<close> of the standard library is a parameter of the model: called on a text it
  returns the decoded value or raises an exception. On text that is not JSON it raises
  \<open>JSONDecodeError\<close>; it can also raise other exceptions, \<open>RecursionError\<close> on deeply nested
  brackets and a plain \<open>ValueError\<close> on an integer literal beyond the digit limit among
  them.
\<close>

datatype py_exception =
    JSONDecodeError
  | TypeError
  | RecursionError
  | ValueError
  | OtherException string

type_synonym decoder = "string \<Rightarrow> py_exception + json"

text \<open>
  \<open>except (json.JSONDecodeError, TypeError): continue\<close>. A plain \<open>ValueError\<close> is not an
  instance of its subclass \<open>JSONDecodeError\<close>, so it is not caught, and neither is any
  other exception.
\<close>

definition caught :: "py_exception \<Rightarrow> bool" where
  "caught err = (err = JSONDecodeError \<or> err = TypeError)"

text \<open>
  The loop body shared by the three extractors: a decoded \<open>dict\<close> is merged into the
  accumulator, another decoded value is skipped, a caught exception skips the occurrence,
  and any other exception leaves the loop and the extractor.
\<close>

definition absorb :: "decoder \<Rightarrow> dict \<Rightarrow> string \<Rightarrow> py_exception + dict" where
  "absorb loads acc body =
     (case loads (py_strip body) of
        Inl err \<Rightarrow> if caught err then Inr acc else Inl err
      | Inr (JObj payload) \<Rightarrow> Inr (dict_update acc payload)
      | Inr _ \<Rightarrow> Inr acc)"

text \<open>The loop \<open>for m in PATTERN.finditer(raw)\<close> over the captured groups.\<close>

fun absorb_all :: "decoder \<Rightarrow> dict \<Rightarrow> string list \<Rightarrow> py_exception + dict" where
  "absorb_all loads acc [] = Inr acc"
| "absorb_all loads acc (body # bodies) =
     (case absorb loads acc body of
        Inl err \<Rightarrow> Inl err
      | Inr acc' \<Rightarrow> absorb_all loads acc' bodies)"

definition extract_and_strip_session_data ::
  "decoder \<Rightarrow> string \<Rightarrow> py_exception + (dict \<times> string)" where
  "extract_and_strip_session_data loads raw =
     (case absorb_all loads [] (finditer True SESSION_DATA raw) of
        Inl err \<Rightarrow> Inl err
      | Inr updates \<Rightarrow>
          (let stripped = strip_closed_loop SESSION_DATA raw;
               stripped = sub_orphan SESSION_DATA stripped;
               stripped = py_strip stripped
           in Inr (updates, stripped)))"

definition extract_and_strip_store_personal ::
  "decoder \<Rightarrow> string \<Rightarrow> py_exception + (dict \<times> string)" where
  "extract_and_strip_store_personal loads raw =
     (case absorb_all loads [] (finditer False STORE_PERSONAL raw) of
        Inl err \<Rightarrow> Inl err
      | Inr personal \<Rightarrow>
          (let stripped = py_strip (sub_closed STORE_PERSONAL raw)
           in Inr (personal, stripped)))"

definition extract_and_strip_store_preference ::
  "decoder \<Rightarrow> string \<Rightarrow> py_exception + (dict \<times> string)" where
  "extract_and_strip_store_preference loads raw =
     (case absorb_all loads [] (finditer False STORE_PREFERENCE raw) of
        Inl err \<Rightarrow> Inl err
      | Inr prefs \<Rightarrow>
          (let stripped = py_strip (sub_closed STORE_PREFERENCE raw)
           in Inr (prefs, stripped)))"

section \<open>Sanitizer\<close>

text \<open>
  \<open>re.match(r"^TAG$", s, re.I)\<close>: the whole of \<open>s\<close> is the tag, in any case; \<open>$\<close> also
  matches before one final newline.
\<close>

definition full_match :: "string \<Rightarrow> string \<Rightarrow> bool" where
  "full_match t s = (py_lower s = py_lower t \<or> py_lower s = py_lower t @ [CHR 0x0A])"

definition is_tag_line :: "string \<Rightarrow> bool" where
  "is_tag_line s =
     (full_match (open_tag SESSION_DATA) s \<or> full_match (close_tag SESSION_DATA) s
      \<or> full_match (open_tag STORE_PERSONAL) s \<or> full_match (close_tag STORE_PERSONAL) s
      \<or> full_match (open_tag STORE_PREFERENCE) s \<or> full_match (close_tag STORE_PREFERENCE) s)"

definition sanitize_response_for_user :: "string \<Rightarrow> string" where
  "sanitize_response_for_user text =
     (if text = [] \<or> py_strip text = [] then text
      else
        let text = strip_closed_loop SESSION_DATA text;
            text = strip_closed_loop STORE_PERSONAL text;
            text = strip_closed_loop STORE_PREFERENCE text;
            text = sub_orphan SESSION_DATA text;
            text = sub_orphan STORE_PERSONAL text;
            text = sub_orphan STORE_PREFERENCE text;
            lines = split_nl text;
            out = filter (\<lambda>line. \<not> is_tag_line (py_strip line)) lines
        in py_strip (join_nl out))"

text \<open>
  Auxiliary notions for the properties of the sanitizer: an opening tag of kind \<open>k\<close>
  occurs somewhere in the text (in any case), and the test the line filter applies.
\<close>

fun has_open :: "marker \<Rightarrow> string \<Rightarrow> bool" where
  "has_open k [] = False"
| "has_open k (x # xs) = (tag_at True (open_tag k) (x # xs) \<or> has_open k xs)"

definition keep_line :: "string \<Rightarrow> bool" where
  "keep_line line = (\<not> is_tag_line (py_strip line))"

section \<open>Extraction by marker kind\<close>











section \<open>Persistence\<close>

text \<open>
  The tables the repository works on. Time stamps are clock readings, a natural number
  each. What the repository takes from outside (the reading of \<open>datetime.utcnow()\<close> and
  the fresh \<open>uuid4\<close> primary key of a new row) is an argument of the operation.
  \<open>commits\<close> counts the calls of \<open>db.commit()\<close>.
\<close>

datatype db_error = MultipleResultsFound

record session_row =
  s_id :: string
  s_user_id :: string
  s_title :: "string option"
  s_is_active :: bool
  s_created_at :: nat
  s_updated_at :: nat
  s_state :: "dict option"

record memory_row =
  m_id :: string
  m_user_id :: string
  m_type :: string
  m_key :: string
  m_value :: string
  m_confidence :: real
  m_source :: string
  m_created_at :: nat
  m_updated_at :: nat

record db =
  sessions :: "session_row list"
  memories :: "memory_row list"
  commits :: nat

record env =
  now :: nat
  fresh_id :: string

text \<open>\<open>result.scalar_one_or_none()\<close> on the rows a query selects.\<close>

fun scalar_one_or_none :: "'a list \<Rightarrow> db_error + 'a option" where
  "scalar_one_or_none [] = Inr None"
| "scalar_one_or_none [x] = Inr (Some x)"
| "scalar_one_or_none (x # y # zs) = Inl MultipleResultsFound"

definition get_session :: "db \<Rightarrow> string \<Rightarrow> db_error + session_row option" where
  "get_session d session_id =
     scalar_one_or_none (filter (\<lambda>s. s_id s = session_id) (sessions d))"

text \<open>\<open>session.state or {}\<close>.\<close>

definition state_or_empty :: "session_row \<Rightarrow> dict" where
  "state_or_empty s = (case s_state s of None \<Rightarrow> [] | Some st \<Rightarrow> st)"

definition update_session_state :: "env \<Rightarrow> db \<Rightarrow> string \<Rightarrow> dict \<Rightarrow> db_error + db" where
  "update_session_state e d session_id state =
     (case get_session d session_id of
        Inl err \<Rightarrow> Inl err
      | Inr None \<Rightarrow> Inr d
      | Inr (Some session) \<Rightarrow>
          Inr (d\<lparr>sessions :=
                  map (\<lambda>s. if s_id s = session_id
                           then s\<lparr>s_state := Some (dict_update (state_or_empty session) state),
                                  s_updated_at := now e\<rparr>
                           else s) (sessions d),
                commits := commits d + 1\<rparr>))"

text \<open>
  Step 7 of \<open>process_message\<close>: the session data is extracted from the raw response and
  merged into the session only \<open>if state_updates\<close>, that is for a non-empty update. The
  result is the database, the update and the stripped response; an exception of the
  extractor or of the repository ends the turn.
\<close>

datatype turn_error = DecoderRaised py_exception | RepositoryRaised db_error

definition process_message_step7 ::
  "decoder \<Rightarrow> env \<Rightarrow> db \<Rightarrow> string \<Rightarrow> string \<Rightarrow> turn_error + (db \<times> dict \<times> string)" where
  "process_message_step7 loads e d session_id raw_response =
     (case extract_and_strip_session_data loads raw_response of
        Inl err \<Rightarrow> Inl (DecoderRaised err)
      | Inr (state_updates, stripped_response) \<Rightarrow>
          if state_updates \<noteq> []
          then (case update_session_state e d session_id state_updates of
                  Inl err \<Rightarrow> Inl (RepositoryRaised err)
                | Inr d' \<Rightarrow> Inr (d', state_updates, stripped_response))
          else Inr (d, state_updates, stripped_response))"

definition memory_of :: "string \<Rightarrow> string \<Rightarrow> memory_row \<Rightarrow> bool" where
  "memory_of user_id key m = (m_user_id m = user_id \<and> m_key m = key)"

definition upsert_memory ::
  "env \<Rightarrow> db \<Rightarrow> string \<Rightarrow> string \<Rightarrow> string \<Rightarrow> string \<Rightarrow> real \<Rightarrow> db_error + (memory_row \<times> db)" where
  "upsert_memory e d user_id memory_type key value confidence =
     (case scalar_one_or_none (filter (memory_of user_id key) (memories d)) of
        Inl err \<Rightarrow> Inl err
      | Inr (Some memory) \<Rightarrow>
          (let memory' = memory\<lparr>m_value := value, m_confidence := confidence,
                                 m_updated_at := now e\<rparr>
           in Inr (memory',
                   d\<lparr>memories := map (\<lambda>m. if memory_of user_id key m then memory' else m)
                                     (memories d),
                     commits := commits d + 1\<rparr>))
      | Inr None \<Rightarrow>
          (let memory = \<lparr>m_id = fresh_id e, m_user_id = user_id, m_type = memory_type,
                         m_key = key, m_value = value, m_confidence = confidence,
                         m_source = ''conversation'', m_created_at = now e,
                         m_updated_at = now e\<rparr>
           in Inr (memory,
                   d\<lparr>memories := memories d @ [memory], commits := commits d + 1\<rparr>)))"

text \<open>
  \<open>delete_memories_by_type\<close>: the rows of the user with that type are deleted, with a
  commit only when there was one; the result is their number.
\<close>

definition delete_memories_by_type :: "db \<Rightarrow> string \<Rightarrow> string \<Rightarrow> nat \<times> db" where
  "delete_memories_by_type d user_id memory_type =
     (let hit = (\<lambda>m. m_user_id m = user_id \<and> m_type m = memory_type);
          found = filter hit (memories d)
      in (length found,
          if found \<noteq> []
          then d\<lparr>memories := filter (\<lambda>m. \<not> hit m) (memories d), commits := commits d + 1\<rparr>
          else d))"

text \<open>A run of upserts on one key, as later turns make them.\<close>

fun upsert_all ::
  "db \<Rightarrow> string \<Rightarrow> string \<Rightarrow> (env \<times> string \<times> string \<times> real) list \<Rightarrow> db_error + db" where
  "upsert_all d user_id key [] = Inr d"
| "upsert_all d user_id key ((e, memory_type, value, confidence) # rest) =
     (case upsert_memory e d user_id memory_type key value confidence of
        Inl err \<Rightarrow> Inl err
      | Inr (m, d') \<Rightarrow> upsert_all d' user_id key rest)"

section \<open>History compaction\<close>

record content_block =
  b_type :: string
  b_markdown :: "string option"
  b_html :: "string option"
  b_template :: "string option"

record stored_block =
  markdown :: string
  html_tools_data :: string

text \<open>\<open>x or ""\<close> for an optional string.\<close>

definition or_empty :: "string option \<Rightarrow> string" where
  "or_empty x = (case x of None \<Rightarrow> [] | Some s \<Rightarrow> s)"

definition append_block :: "stored_block \<Rightarrow> 'e + stored_block list \<Rightarrow> 'e + stored_block list" where
  "append_block x r = (case r of Inl err \<Rightarrow> Inl err | Inr xs \<Rightarrow> Inr (x # xs))"

text \<open>
  The loop of \<open>_build_blocks_json_for_storage\<close> over the blocks, with the three flags
  \<open>nft_used\<close>, \<open>collection_used\<close> and \<open>detail_used\<close>. The three summaries are closures
  over the session-data payload of the turn that take no argument: each is given here by
  what a call of it yields, a string or an exception of some type \<open>'e\<close>, and like in the
  source it is called only where the flag of its kind is still unset. The result is the
  list that \<open>json.dumps\<close> serialises.
\<close>

fun build_blocks ::
  "('e + string) \<Rightarrow> ('e + string) \<Rightarrow> ('e + string) \<Rightarrow> bool \<Rightarrow> bool \<Rightarrow> bool
     \<Rightarrow> content_block list \<Rightarrow> 'e + stored_block list" where
  "build_blocks nft_list_summary collection_list_summary detail_summary_text
      nft_used collection_used detail_used [] = Inr []"
| "build_blocks nft_list_summary collection_list_summary detail_summary_text
      nft_used collection_used detail_used (b # bs) =
     (if b_type b = ''text'' then
        append_block \<lparr>markdown = py_strip (or_empty (b_markdown b)), html_tools_data = []\<rparr>
          (build_blocks nft_list_summary collection_list_summary detail_summary_text
             nft_used collection_used detail_used bs)
      else if b_type b = ''html_component'' \<and> or_empty (b_template b) \<noteq> [] then
        (let t = py_lower (or_empty (b_template b)) in
         if t = ''grid'' \<or> t = ''table'' then
           (case (if \<not> nft_used then nft_list_summary else Inr []) of
              Inl err \<Rightarrow> Inl err
            | Inr data \<Rightarrow>
                append_block \<lparr>markdown = [], html_tools_data = data\<rparr>
                  (build_blocks nft_list_summary collection_list_summary detail_summary_text
                     True collection_used detail_used bs))
         else if t = ''collection_grid'' \<or> t = ''collection_table'' then
           (case (if \<not> collection_used then collection_list_summary else Inr []) of
              Inl err \<Rightarrow> Inl err
            | Inr data \<Rightarrow>
                append_block \<lparr>markdown = [], html_tools_data = data\<rparr>
                  (build_blocks nft_list_summary collection_list_summary detail_summary_text
                     nft_used True detail_used bs))
         else if t = ''details'' then
           (case (if \<not> detail_used then detail_summary_text else Inr []) of
              Inl err \<Rightarrow> Inl err
            | Inr data \<Rightarrow>
                append_block \<lparr>markdown = [], html_tools_data = data\<rparr>
                  (build_blocks nft_list_summary collection_list_summary detail_summary_text
                     nft_used collection_used True bs))
         else
           append_block \<lparr>markdown = [], html_tools_data = []\<rparr>
             (build_blocks nft_list_summary collection_list_summary detail_summary_text
                nft_used collection_used detail_used bs))
      else
        append_block \<lparr>markdown = py_strip (or_empty (b_markdown b)), html_tools_data = []\<rparr>
          (build_blocks nft_list_summary collection_list_summary detail_summary_text
             nft_used collection_used detail_used bs))"

definition build_blocks_json_for_storage ::
  "('e + string) \<Rightarrow> ('e + string) \<Rightarrow> ('e + string) \<Rightarrow> content_block list
     \<Rightarrow> 'e + stored_block list" where
  "build_blocks_json_for_storage nft_list_summary collection_list_summary detail_summary_text blocks =
     build_blocks nft_list_summary collection_list_summary detail_summary_text
       False False False blocks"

text \<open>
  The kind of summary a block asks for, to state which block is the first of its kind:
  a component block is one of type \<open>html_component\<close> with a non-empty template.
\<close>

datatype summary_kind = NFT_LIST | COLLECTION_LIST | DETAIL

definition block_kind :: "content_block \<Rightarrow> summary_kind option" where
  "block_kind b =
     (if b_type b = ''html_component'' \<and> or_empty (b_template b) \<noteq> [] then
        (let t = py_lower (or_empty (b_template b)) in
         if t = ''grid'' \<or> t = ''table'' then Some NFT_LIST
         else if t = ''collection_grid'' \<or> t = ''collection_table'' then Some COLLECTION_LIST
         else if t = ''details'' then Some DETAIL
         else None)
      else None)"

fun summary_of :: "summary_kind \<Rightarrow> string \<Rightarrow> string \<Rightarrow> string \<Rightarrow> string" where
  "summary_of NFT_LIST sn sc sd = sn"
| "summary_of COLLECTION_LIST sn sc sd = sc"
| "summary_of DETAIL sn sc sd = sd"

fun component :: "string \<Rightarrow> content_block" where
  "component t = \<lparr>b_type = ''html_component'', b_markdown = None, b_html = Some ''<div/>'',
                  b_template = Some t\<rparr>"

fun used_of :: "summary_kind \<Rightarrow> bool \<Rightarrow> bool \<Rightarrow> bool \<Rightarrow> bool" where
  "used_of NFT_LIST nu cu du = nu"
| "used_of COLLECTION_LIST nu cu du = cu"
| "used_of DETAIL nu cu du = du"

section \<open>Regular expressions of the memory policy\<close>

text \<open>
  The intent patterns are compiled with \<open>re.I\<close> and used through \<open>search\<close>. They are
  written in a small pattern language whose matcher follows the backtracking order of
  \<open>re\<close>: from a position it yields every way to match, the preferred one first, so the
  head of the list is the match that \<open>re\<close> reports. A position is the character before
  it (for \<open>\b\<close>), the text after it, and the text of group 1 if it has been closed.
\<close>

datatype cclass = WS | DIGIT | ALPHA | ONEOF string

datatype rx =
    Lit string
  | Cset "cclass list"
  | Seq rx rx
  | Alt rx rx
  | Opt rx
  | Star rx
  | LazyStar rx
  | Upto nat rx
  | Cap rx
  | WordB
  | Eos

type_synonym pos = "char option \<times> string \<times> string option"

definition is_digit :: "char \<Rightarrow> bool" where
  "is_digit c = (let n = (of_char c :: nat) in 48 \<le> n \<and> n \<le> 57)"

definition is_alpha :: "char \<Rightarrow> bool" where
  "is_alpha c = (let n = (of_char c :: nat) in (65 \<le> n \<and> n \<le> 90) \<or> (97 \<le> n \<and> n \<le> 122))"

text \<open>The class \<open>\w\<close> on the code points below 256.\<close>

definition is_word :: "char \<Rightarrow> bool" where
  "is_word c =
     (let n = (of_char c :: nat)
      in is_alpha c \<or> is_digit c \<or> n = 95 \<or> n = 170 \<or> n = 178 \<or> n = 179 \<or> n = 181
         \<or> n = 185 \<or> n = 186 \<or> (188 \<le> n \<and> n \<le> 190) \<or> (192 \<le> n \<and> n \<le> 214)
         \<or> (216 \<le> n \<and> n \<le> 246) \<or> 248 \<le> n)"

fun in_class :: "cclass \<Rightarrow> char \<Rightarrow> bool" where
  "in_class WS c = is_space c"
| "in_class DIGIT c = is_digit c"
| "in_class ALPHA c = is_alpha c"
| "in_class (ONEOF cs) c = (lower_chr c \<in> set (map lower_chr cs))"

definition word_before :: "char option \<Rightarrow> bool" where
  "word_before prev = (case prev of None \<Rightarrow> False | Some c \<Rightarrow> is_word c)"

definition word_after :: "string \<Rightarrow> bool" where
  "word_after s = (case s of [] \<Rightarrow> False | c # cs \<Rightarrow> is_word c)"

definition progress :: "pos \<Rightarrow> pos \<Rightarrow> bool" where
  "progress p q = (length (fst (snd q)) < length (fst (snd p)))"

text \<open>
  Repetition of a one-step matcher \<open>f\<close>: greedy (\<open>*\<close>), lazy (\<open>*?\<close>) and greedy with a
  bound (\<open>{0,n}\<close>). An iteration counts only if it consumes text, so the number of
  iterations is bounded by the length of the text, which is the first argument.
\<close>

fun star_iter :: "nat \<Rightarrow> (pos \<Rightarrow> pos list) \<Rightarrow> pos \<Rightarrow> pos list" where
  "star_iter 0 f p = [p]"
| "star_iter (Suc n) f p = concat (map (star_iter n f) (filter (progress p) (f p))) @ [p]"

fun lazy_iter :: "nat \<Rightarrow> (pos \<Rightarrow> pos list) \<Rightarrow> pos \<Rightarrow> pos list" where
  "lazy_iter 0 f p = [p]"
| "lazy_iter (Suc n) f p = p # concat (map (lazy_iter n f) (filter (progress p) (f p)))"

fun upto_iter :: "nat \<Rightarrow> (pos \<Rightarrow> pos list) \<Rightarrow> pos \<Rightarrow> pos list" where
  "upto_iter 0 f p = [p]"
| "upto_iter (Suc n) f p = concat (map (upto_iter n f) (f p)) @ [p]"

definition match_lit :: "string \<Rightarrow> pos \<Rightarrow> pos list" where
  "match_lit w p =
     (case p of (prev, s, cap) \<Rightarrow>
        if w = [] then [p]
        else if tag_at True w s then [(Some (last (take (length w) s)), drop (length w) s, cap)]
        else [])"

definition match_cset :: "cclass list \<Rightarrow> pos \<Rightarrow> pos list" where
  "match_cset cs p =
     (case p of (prev, s, cap) \<Rightarrow>
        (case s of [] \<Rightarrow> []
         | c # rest \<Rightarrow> if list_ex (\<lambda>k. in_class k c) cs then [(Some c, rest, cap)] else []))"

definition close_group :: "pos \<Rightarrow> pos \<Rightarrow> pos" where
  "close_group p q =
     (case p of (prev, s, cap) \<Rightarrow>
        (case q of (prev', s', cap') \<Rightarrow> (prev', s', Some (take (length s - length s') s))))"

primrec rmatch :: "rx \<Rightarrow> pos \<Rightarrow> pos list" where
  "rmatch (Lit w) = match_lit w"
| "rmatch (Cset cs) = match_cset cs"
| "rmatch (Seq a b) = (\<lambda>p. concat (map (rmatch b) (rmatch a p)))"
| "rmatch (Alt a b) = (\<lambda>p. rmatch a p @ rmatch b p)"
| "rmatch (Opt a) = (\<lambda>p. rmatch a p @ [p])"
| "rmatch (Star a) = (\<lambda>p. star_iter (length (fst (snd p))) (rmatch a) p)"
| "rmatch (LazyStar a) = (\<lambda>p. lazy_iter (length (fst (snd p))) (rmatch a) p)"
| "rmatch (Upto n a) = (\<lambda>p. upto_iter n (rmatch a) p)"
| "rmatch (Cap a) = (\<lambda>p. map (close_group p) (rmatch a p))"
| "rmatch WordB = (\<lambda>p. if word_before (fst p) \<noteq> word_after (fst (snd p)) then [p] else [])"
| "rmatch Eos = (\<lambda>p. if fst (snd p) = [] \<or> fst (snd p) = [CHR 0x0A] then [p] else [])"

text \<open>\<open>pattern.search(s)\<close>: the first position, from the left, where the pattern matches.\<close>

fun search_from :: "rx \<Rightarrow> char option \<Rightarrow> string \<Rightarrow> pos option" where
  "search_from r prev [] = (case rmatch r (prev, [], None) of [] \<Rightarrow> None | p # ps \<Rightarrow> Some p)"
| "search_from r prev (c # cs) =
     (case rmatch r (prev, c # cs, None) of
        [] \<Rightarrow> search_from r (Some c) cs
      | p # ps \<Rightarrow> Some p)"

definition re_search :: "rx \<Rightarrow> string \<Rightarrow> pos option" where
  "re_search r s = search_from r None s"

text \<open>\<open>m.group(1)\<close>; every pattern read for its group closes it in each match.\<close>

definition group1 :: "pos \<Rightarrow> string" where
  "group1 p = (case snd (snd p) of None \<Rightarrow> [] | Some g \<Rightarrow> g)"

fun seqs :: "rx list \<Rightarrow> rx" where
  "seqs [] = Lit []"
| "seqs [r] = r"
| "seqs (r # rs) = Seq r (seqs rs)"

fun alts :: "rx list \<Rightarrow> rx" where
  "alts [] = Cset []"
| "alts [r] = r"
| "alts (r # rs) = Alt r (alts rs)"

definition Plus :: "rx \<Rightarrow> rx" where
  "Plus r = Seq r (Star r)"

definition LazyPlus :: "rx \<Rightarrow> rx" where
  "LazyPlus r = Seq r (LazyStar r)"

text \<open>\<open>\s+\<close>.\<close>

definition ws1 :: rx where
  "ws1 = Plus (Cset [WS])"

definition DONT_REMEMBER_PERSONAL :: rx where
  "DONT_REMEMBER_PERSONAL =
     seqs [WordB,
           alts [Lit ''don't remember'', Lit ''do not remember'', Lit ''forget'',
                 Lit ''don't store'', Lit ''do not store'', Lit ''remove'', Lit ''delete''],
           ws1,
           Opt (seqs [Lit ''my'', ws1]),
           alts [Lit ''name'', seqs [Lit ''detail'', Opt (Lit ''s'')], Lit ''personal'',
                 Lit ''info'', Lit ''information''],
           WordB]"

definition REMEMBER_ASK_PATTERN :: rx where
  "REMEMBER_ASK_PATTERN =
     alts [
       seqs [WordB,
             alts [Lit ''remember'', Lit ''save'', Lit ''store'', Lit ''keep'', Lit ''share'',
                   Lit ''sharing''],
             ws1,
             Opt (seqs [Lit ''that'', ws1]),
             Opt (seqs [Lit ''my'', ws1]),
             Opt (seqs [Lit ''this'', ws1]),
             alts [Lit ''preference'', Lit ''preferences'', Lit ''choice'', Lit ''choices'',
                   seqs [Lit ''that'', ws1, Lit ''i'', ws1, Lit ''prefer''],
                   seqs [Lit ''that'', ws1, Lit ''i'', ws1, Lit ''like''],
                   seqs [Lit ''i'', ws1, Lit ''prefer''],
                   seqs [Lit ''i'', ws1, Lit ''like'']],
             WordB],
       seqs [WordB,
             alts [seqs [Lit ''this'', ws1, Lit ''is''],
                   seqs [Lit ''that'', Opt (Lit [CHR 0x27]), Opt (Lit ''s'')]],
             ws1,
             Opt (seqs [Lit ''my'', ws1]),
             alts [Lit ''preference'', Lit ''choice''],
             WordB],
       seqs [WordB,
             alts [seqs [Lit ''want'', ws1, Lit ''to''],
                   seqs [Lit ''would'', ws1, Lit ''like'', ws1, Lit ''to''],
                   Lit ''please''],
             ws1,
             alts [Lit ''remember'', Lit ''save'', Lit ''store'', Lit ''keep''],
             ws1,
             Opt (seqs [Lit ''my'', ws1]),
             Opt (alts [Lit ''preference'', Lit ''choice'',
                        seqs [Lit ''that'', ws1, Lit ''i'', ws1, Lit ''prefer'']]),
             WordB]]"

text \<open>The group \<open>([a-zA-Z][a-zA-Z0-9_\s]{0,50})\<close> of the name patterns.\<close>

definition name_group :: rx where
  "name_group = Cap (seqs [Cset [ALPHA], Upto 50 (Cset [ALPHA, DIGIT, ONEOF ''_'', WS])])"

definition NAME_PATTERN_0 :: rx where
  "NAME_PATTERN_0 =
     seqs [alts [Lit ''call me'', Lit ''my name is'',
                 seqs [Lit ''i'', Opt (Lit [CHR 0x27]), Lit ''m''], Lit ''i am'', Lit ''this is''],
           ws1, name_group]"

definition NAME_PATTERN_1 :: rx where
  "NAME_PATTERN_1 = seqs [alts [Lit ''you can call me'', Lit ''call me''], ws1, name_group]"

definition COLLECTION_INTEREST_PATTERN :: rx where
  "COLLECTION_INTEREST_PATTERN =
     seqs [alts [Lit ''interested in'', Lit ''like'', Lit ''love'', Lit ''collect''],
           ws1,
           Opt (seqs [Lit ''the'', ws1]),
           Opt (seqs [Lit ''collection'', Opt (Lit ''s''), ws1]),
           Cap (LazyPlus (Cset [ALPHA, DIGIT, WS, ONEOF '',''])),
           Opt (seqs [ws1, Lit ''collection'']),
           Star (Cset [ONEOF ''.!,'', WS]),
           Eos]"

definition PRICE_RANGE_PATTERN :: rx where
  "PRICE_RANGE_PATTERN =
     seqs [alts [Lit ''under'', Lit ''below'', Lit ''max'', Lit ''within''],
           ws1,
           Cap (seqs [Plus (Cset [DIGIT]), Opt (seqs [Lit ''.'', Plus (Cset [DIGIT])])]),
           Star (Cset [WS]),
           Lit ''ETH'']"

section \<open>Memory write policy\<close>

definition MEMORY_TYPE_PERSONAL :: string where "MEMORY_TYPE_PERSONAL = ''personal''"
definition MEMORY_TYPE_PREFERENCE :: string where "MEMORY_TYPE_PREFERENCE = ''preference''"
definition MEMORY_TYPE_INTENT :: string where "MEMORY_TYPE_INTENT = ''intent''"

definition KEY_DISPLAY_NAME :: string where "KEY_DISPLAY_NAME = ''display_name''"
definition KEY_TIMEZONE :: string where "KEY_TIMEZONE = ''timezone''"
definition KEY_LANGUAGE :: string where "KEY_LANGUAGE = ''language''"
definition KEY_PREFERRED_VIEW :: string where "KEY_PREFERRED_VIEW = ''preferred_view''"
definition KEY_DETAIL_LEVEL :: string where "KEY_DETAIL_LEVEL = ''detail_level''"
definition KEY_RESPONSE_FORMAT :: string where "KEY_RESPONSE_FORMAT = ''response_format''"
definition KEY_STYLE_PREFERENCE :: string where "KEY_STYLE_PREFERENCE = ''style_preference''"
definition KEY_PRIMARY_INTENT :: string where "KEY_PRIMARY_INTENT = ''primary_intent''"
definition KEY_INTEREST_COLLECTIONS :: string where "KEY_INTEREST_COLLECTIONS = ''interest_collections''"
definition KEY_PRICE_RANGE_INTEREST :: string where "KEY_PRICE_RANGE_INTEREST = ''price_range_interest''"

text \<open>
  The calls \<open>_extract_and_store_memory\<close> makes on the repository. The function never
  looks at what a call returns, so it is the list of its calls, in order, run on the
  database one after the other; an exception of a call ends the run.
\<close>

datatype mem_op =
    Upsert string string string string
  | DeleteByType string string

text \<open>
  \<open>str(v)\<close> of a decoded value: the string itself for a string; for the other values the
  text Python prints, which is the parameter \<open>repr\<close>.
\<close>

definition py_str :: "(json \<Rightarrow> string) \<Rightarrow> json \<Rightarrow> string" where
  "py_str repr v = (case v of JStr s \<Rightarrow> s | _ \<Rightarrow> repr v)"

text \<open>\<open>d.get(k)\<close> is \<open>None\<close> for a missing key; \<open>a or b\<close> on such results.\<close>

definition opt_truthy :: "json option \<Rightarrow> bool" where
  "opt_truthy a = (case a of None \<Rightarrow> False | Some v \<Rightarrow> truthy v)"

definition py_or :: "json option \<Rightarrow> json option \<Rightarrow> json option" where
  "py_or a b = (if opt_truthy a then a else b)"

text \<open>\<open>d or {}\<close> for an optional dictionary.\<close>

definition or_dict :: "dict option \<Rightarrow> dict" where
  "or_dict d = (case d of None \<Rightarrow> [] | Some x \<Rightarrow> x)"

text \<open>An \<open>if\<close>/\<open>elif\<close> chain without \<open>else\<close>: the value of the first condition that holds.\<close>

fun first_true :: "(bool \<times> 'a) list \<Rightarrow> 'a option" where
  "first_true [] = None"
| "first_true ((c, v) # rest) = (if c then Some v else first_true rest)"

text \<open>The name found by a name pattern: stored if it is short and not a filler word.\<close>

definition name_op :: "string \<Rightarrow> pos \<Rightarrow> mem_op list" where
  "name_op user_id m =
     (let name = py_strip (group1 m)
      in if length name \<le> 50 \<and> py_lower name \<notin> set [''me'', ''i'', ''a'', ''the'']
         then [Upsert user_id MEMORY_TYPE_PERSONAL KEY_DISPLAY_NAME name]
         else [])"

text \<open>The loop over \<open>NAME_PATTERNS\<close>, which stops at the first pattern that matches.\<close>

definition name_ops :: "string \<Rightarrow> string \<Rightarrow> mem_op list" where
  "name_ops user_id msg =
     (case re_search NAME_PATTERN_0 msg of
        Some m \<Rightarrow> name_op user_id m
      | None \<Rightarrow>
          (case re_search NAME_PATTERN_1 msg of
             Some m \<Rightarrow> name_op user_id m
           | None \<Rightarrow> []))"

text \<open>\<open>if personal_from_llm.get(KEY): upsert(..., str(personal_from_llm[KEY])[:n])\<close>.\<close>

definition llm_personal_op ::
  "(json \<Rightarrow> string) \<Rightarrow> string \<Rightarrow> dict \<Rightarrow> string \<Rightarrow> nat \<Rightarrow> mem_op list" where
  "llm_personal_op repr user_id personal key n =
     (case dict_get personal key of
        None \<Rightarrow> []
      | Some v \<Rightarrow>
          if truthy v then [Upsert user_id MEMORY_TYPE_PERSONAL key (take n (py_str repr v))]
          else [])"

text \<open>
  One preference dimension: the directive's value if it is one of the allowed words,
  otherwise the first keyword test on the message that holds.
\<close>

definition resolve ::
  "(json \<Rightarrow> string) \<Rightarrow> dict \<Rightarrow> string \<Rightarrow> string list \<Rightarrow> (bool \<times> string) list \<Rightarrow> string option" where
  "resolve repr pref key allowed fallbacks =
     (case py_or (dict_get pref key) (dict_get pref key) of
        None \<Rightarrow> first_true fallbacks
      | Some v \<Rightarrow>
          if truthy v \<and> py_lower (py_str repr v) \<in> set allowed
          then Some (py_lower (py_str repr v))
          else first_true fallbacks)"

definition upsert_if :: "string \<Rightarrow> string \<Rightarrow> string \<Rightarrow> string option \<Rightarrow> mem_op list" where
  "upsert_if user_id memory_type key v =
     (case v of None \<Rightarrow> [] | Some x \<Rightarrow> [Upsert user_id memory_type key x])"

definition preference_ops ::
  "(json \<Rightarrow> string) \<Rightarrow> string \<Rightarrow> string \<Rightarrow> string \<Rightarrow> dict \<Rightarrow> mem_op list" where
  "preference_ops repr user_id msg msg_lower pref =
     upsert_if user_id MEMORY_TYPE_PREFERENCE KEY_PREFERRED_VIEW
       (resolve repr pref KEY_PREFERRED_VIEW [''grid'', ''table'']
          [(py_in ''table'' msg_lower \<or> py_in ''list view'' msg_lower
              \<or> py_in ''list format'' msg_lower
              \<or> (py_in ''list'' msg_lower
                  \<and> (py_in ''view'' msg_lower \<or> py_in ''prefer'' msg_lower
                      \<or> py_in ''preference'' msg_lower)), ''table''),
           (py_in ''grid'' msg_lower \<or> py_in ''card view'' msg_lower
              \<or> py_in ''grid format'' msg_lower, ''grid'')])
     @ upsert_if user_id MEMORY_TYPE_PREFERENCE KEY_DETAIL_LEVEL
       (resolve repr pref KEY_DETAIL_LEVEL [''minimal'', ''standard'', ''detailed'', ''full'']
          [(py_in ''more detail'' msg_lower \<or> py_in ''full info'' msg_lower
              \<or> py_in ''detailed'' msg_lower, ''detailed''),
           (py_in ''brief'' msg_lower \<or> py_in ''quick'' msg_lower \<or> py_in ''minimal'' msg_lower
              \<or> py_in ''less detail'' msg_lower, ''minimal''),
           (py_in ''standard'' msg_lower
              \<and> (py_in ''detail'' msg_lower \<or> py_in ''info'' msg_lower), ''standard'')])
     @ upsert_if user_id MEMORY_TYPE_PREFERENCE KEY_RESPONSE_FORMAT
       (resolve repr pref KEY_RESPONSE_FORMAT [''concise'', ''balanced'', ''detailed'']
          [(py_in ''short'' msg_lower \<or> py_in ''concise'' msg_lower
              \<or> py_in ''quick answer'' msg_lower, ''concise''),
           (py_in ''detailed'' msg_lower \<or> py_in ''full'' msg_lower
              \<or> py_in ''explain more'' msg_lower, ''detailed''),
           (py_in ''balanced'' msg_lower, ''balanced'')])
     @ upsert_if user_id MEMORY_TYPE_PREFERENCE KEY_STYLE_PREFERENCE
       (first_true
          [(py_in ''minimal'' msg_lower
              \<and> (py_in ''style'' msg_lower \<or> py_in ''look'' msg_lower
                  \<or> py_in ''prefer'' msg_lower), ''minimal''),
           (py_in ''rich'' msg_lower \<or> py_in ''more style'' msg_lower, ''rich'')])
     @ upsert_if user_id MEMORY_TYPE_INTENT KEY_PRIMARY_INTENT
       (first_true
          [(py_in ''just browsing'' msg_lower \<or> py_in ''browsing'' msg_lower
              \<or> py_in ''looking around'' msg_lower, ''browsing''),
           (py_in ''looking to buy'' msg_lower \<or> py_in ''want to buy'' msg_lower
              \<or> py_in ''buying'' msg_lower, ''buying''),
           (py_in ''collector'' msg_lower \<or> py_in ''collecting'' msg_lower, ''collecting''),
           (py_in ''research'' msg_lower \<or> py_in ''comparing'' msg_lower
              \<or> py_in ''analysis'' msg_lower, ''research'')])
     @ (case re_search COLLECTION_INTEREST_PATTERN msg of
          None \<Rightarrow> []
        | Some coll_m \<Rightarrow>
            (let raw = py_strip (group1 coll_m)
             in if length raw \<le> 200
                then [Upsert user_id MEMORY_TYPE_INTENT KEY_INTEREST_COLLECTIONS raw]
                else []))
     @ (case re_search PRICE_RANGE_PATTERN msg of
          None \<Rightarrow> []
        | Some price_m \<Rightarrow>
            [Upsert user_id MEMORY_TYPE_INTENT KEY_PRICE_RANGE_INTEREST
               (''under '' @ group1 price_m @ '' ETH'')])"

definition memory_plan ::
  "(json \<Rightarrow> string) \<Rightarrow> string \<Rightarrow> string \<Rightarrow> dict option \<Rightarrow> dict option \<Rightarrow> mem_op list" where
  "memory_plan repr user_id message personal_from_llm preference_from_llm =
     (let msg = py_strip message;
          msg_lower = py_lower msg;
          personal = or_dict personal_from_llm;
          pref = or_dict preference_from_llm
      in if re_search DONT_REMEMBER_PERSONAL msg \<noteq> None
         then [DeleteByType user_id MEMORY_TYPE_PERSONAL]
         else name_ops user_id msg
              @ llm_personal_op repr user_id personal KEY_DISPLAY_NAME 100
              @ llm_personal_op repr user_id personal KEY_TIMEZONE 100
              @ llm_personal_op repr user_id personal KEY_LANGUAGE 50
              @ (if re_search REMEMBER_ASK_PATTERN msg = None \<and> pref = [] then []
                 else preference_ops repr user_id msg msg_lower pref))"

text \<open>
  Running the calls: the \<open>i\<close>-th call finds its clock reading and fresh key in
  \<open>envs i\<close>; the upserts of the policy pass no confidence, which defaults to 1.
\<close>

fun run_ops :: "(nat \<Rightarrow> env) \<Rightarrow> nat \<Rightarrow> db \<Rightarrow> mem_op list \<Rightarrow> db_error + db" where
  "run_ops envs i d [] = Inr d"
| "run_ops envs i d (Upsert user_id memory_type key value # ops) =
     (case upsert_memory (envs i) d user_id memory_type key value 1 of
        Inl err \<Rightarrow> Inl err
      | Inr (m, d') \<Rightarrow> run_ops envs (Suc i) d' ops)"
| "run_ops envs i d (DeleteByType user_id memory_type # ops) =
     run_ops envs (Suc i) (snd (delete_memories_by_type d user_id memory_type)) ops"

definition extract_and_store_memory ::
  "(json \<Rightarrow> string) \<Rightarrow> (nat \<Rightarrow> env) \<Rightarrow> db \<Rightarrow> string \<Rightarrow> string \<Rightarrow> dict option \<Rightarrow> dict option
     \<Rightarrow> db_error + db" where
  "extract_and_store_memory repr envs d user_id message personal_from_llm preference_from_llm =
     run_ops envs 0 d (memory_plan repr user_id message personal_from_llm preference_from_llm)"

definition personal_keys :: "string list" where
  "personal_keys = [KEY_DISPLAY_NAME, KEY_TIMEZONE, KEY_LANGUAGE]"

text \<open>
  Notions for the properties of the policy: a call that concerns only the personal
  details of the user; a row that such a call cannot touch; two rows that are the same
  record (same primary key) with the same user, key and type.
\<close>

fun personal_write :: "string \<Rightarrow> mem_op \<Rightarrow> bool" where
  "personal_write uid (Upsert user_id memory_type key value) =
     (user_id = uid \<and> memory_type = MEMORY_TYPE_PERSONAL \<and> key \<in> set personal_keys)"
| "personal_write uid (DeleteByType user_id memory_type) =
     (user_id = uid \<and> memory_type = MEMORY_TYPE_PERSONAL)"

definition outside_personal :: "string \<Rightarrow> memory_row \<Rightarrow> bool" where
  "outside_personal uid m =
     (\<not> (m_user_id m = uid \<and> (m_key m \<in> set personal_keys \<or> m_type m = MEMORY_TYPE_PERSONAL)))"

definition same_record :: "memory_row \<Rightarrow> memory_row \<Rightarrow> bool" where
  "same_record m m' =
     (m_id m = m_id m' \<and> m_user_id m = m_user_id m' \<and> m_key m = m_key m' \<and> m_type m = m_type m')"

definition envs0 :: "nat \<Rightarrow> env" where
  "envs0 i = \<lparr>now = 10 + i, fresh_id = ''new''\<rparr>"

section \<open>Example data\<close>

definition env0 :: env where
  "env0 = \<lparr>now = 7, fresh_id = ''m2''\<rparr>"

definition db0 :: db where
  "db0 = \<lparr>sessions = [\<lparr>s_id = ''s1'', s_user_id = ''u1'', s_title = None, s_is_active = True,
                         s_created_at = 1, s_updated_at = 1,
                         s_state = Some [(''x'', JInt 1)]\<rparr>],
          memories = [\<lparr>m_id = ''m1'', m_user_id = ''u1'', m_type = ''personal'',
                        m_key = ''display_name'', m_value = ''Alex'', m_confidence = 1,
                        m_source = ''conversation'', m_created_at = 1, m_updated_at = 1\<rparr>],
          commits = 0\<rparr>"

definition db1 :: db where
  "db1 = \<lparr>sessions = [],
          memories = [\<lparr>m_id = ''m7'', m_user_id = ''u1'', m_type = ''preference'',
                        m_key = ''preferred_view'', m_value = ''table'', m_confidence = 1,
                        m_source = ''conversation'', m_created_at = 2, m_updated_at = 2\<rparr>],
          commits = 0\<rparr>"

section \<open>Properties of the extractors\<close>

lemma absorb_all_single:
  "absorb_all loads acc [body] = absorb loads acc body"
  by (simp split: sum.splits)

text \<open>
  Claim C1. Tag matching is meant to ignore case for extraction as well as for stripping.
  The extraction patterns of the two store directives are compiled without
  \<open>re.IGNORECASE\<close>: a lower-case personal block is removed from the text while its
  payload is never handed to the decoder, whatever the decoder is. The same block with
  upper-case tags, and a lower-case session-data block, do reach the decoder.
\<close>

theorem lowercase_store_personal_payload_dropped:
  \<open>extract_and_strip_store_personal loads
      ''[store_personal]{"display_name":"Alex"}[/store_personal]'' = Inr ([], [])
   \<and> extract_and_strip_store_personal loads
      ''[STORE_PERSONAL]{"display_name":"Alex"}[/STORE_PERSONAL]''
      = (case absorb loads [] ''{"display_name":"Alex"}'' of
           Inl err \<Rightarrow> Inl err
         | Inr personal \<Rightarrow> Inr (personal, []))
   \<and> extract_and_strip_session_data loads
      ''[session_data]{"display_name":"Alex"}[/session_data]''
      = (case absorb loads [] ''{"display_name":"Alex"}'' of
           Inl err \<Rightarrow> Inl err
         | Inr updates \<Rightarrow> Inr (updates, []))\<close>
proof -
  have f1: \<open>finditer False STORE_PERSONAL
      ''[store_personal]{"display_name":"Alex"}[/store_personal]'' = []\<close>
    by code_simp
  have s1: \<open>py_strip (sub_closed STORE_PERSONAL
      ''[store_personal]{"display_name":"Alex"}[/store_personal]'') = []\<close>
    by code_simp
  have f2: \<open>finditer False STORE_PERSONAL
      ''[STORE_PERSONAL]{"display_name":"Alex"}[/STORE_PERSONAL]''
      = [''{"display_name":"Alex"}'']\<close>
    by code_simp
  have s2: \<open>py_strip (sub_closed STORE_PERSONAL
      ''[STORE_PERSONAL]{"display_name":"Alex"}[/STORE_PERSONAL]'') = []\<close>
    by code_simp
  have f3: \<open>finditer True SESSION_DATA
      ''[session_data]{"display_name":"Alex"}[/session_data]''
      = [''{"display_name":"Alex"}'']\<close>
    by code_simp
  have s3: \<open>py_strip (sub_orphan SESSION_DATA (strip_closed_loop SESSION_DATA
      ''[session_data]{"display_name":"Alex"}[/session_data]'')) = []\<close>
    by code_simp
  show ?thesis
    unfolding extract_and_strip_store_personal_def extract_and_strip_session_data_def Let_def
      f1 f2 f3 s1 s2 s3 absorb_all_single
    by simp
qed

text \<open>
  Claim C2. An opening tag without a closing tag is to be removed up to the end of the
  text by each extractor. The session-data extractor does so; the extractors of the two
  store directives have no such pass and return the dangling block unchanged.
\<close>

theorem orphan_left_by_store_extractors:
  "extract_and_strip_store_personal loads ''hello [STORE_PERSONAL]{bad json''
      = Inr ([], ''hello [STORE_PERSONAL]{bad json'')
   \<and> extract_and_strip_store_preference loads ''hello [STORE_PREFERENCE]{bad json''
      = Inr ([], ''hello [STORE_PREFERENCE]{bad json'')
   \<and> extract_and_strip_session_data loads ''hello [SESSION_DATA]{bad json''
      = Inr ([], ''hello'')"
  by code_simp































section \<open>Properties of the sanitizer\<close>

lemma tag_at_prefix: "tag_at True t s \<longleftrightarrow> prefix (map lower_chr t) (map lower_chr s)"
proof
  assume "tag_at True t s"
  then have "take (length t) (map lower_chr s) = map lower_chr t"
    by (simp add: tag_at_def take_map)
  then show "prefix (map lower_chr t) (map lower_chr s)"
    by (metis take_is_prefix)
next
  assume "prefix (map lower_chr t) (map lower_chr s)"
  then obtain zs where "map lower_chr s = map lower_chr t @ zs"
    by (auto simp: prefix_def)
  then have "take (length t) (map lower_chr s) = map lower_chr t"
    by simp
  then show "tag_at True t s"
    by (simp add: tag_at_def take_map)
qed

lemma has_open_sublist: "has_open k s \<longleftrightarrow> sublist (py_lower (open_tag k)) (py_lower s)"
proof (induction s)
  case Nil
  have "open_tag k \<noteq> []" by (cases k) simp_all
  then show ?case by (simp add: py_lower_def)
next
  case (Cons x xs)
  then show ?case
    by (simp add: tag_at_prefix py_lower_def sublist_Cons_right)
qed

lemma has_open_mono: "sublist a b \<Longrightarrow> has_open k a \<Longrightarrow> has_open k b"
  unfolding has_open_sublist py_lower_def
  by (meson map_mono_sublist sublist_order.order_trans)

lemma no_open_orphan: "\<not> has_open k s \<Longrightarrow> sub_orphan k s = s"
  by (induction s) auto

lemma no_open_search: "\<not> has_open k s \<Longrightarrow> \<not> search_closed k s"
  by (induction s) (auto simp: match_here_def)

lemma no_open_loop: "\<not> has_open k s \<Longrightarrow> strip_closed_loop k s = s"
  by (simp add: strip_closed_loop.simps no_open_search)

lemma sub_orphan_prefix: "prefix (sub_orphan k s) s"
  by (induction s) auto

lemma tag_at_mono: "prefix p q \<Longrightarrow> tag_at True t p \<Longrightarrow> tag_at True t q"
  unfolding tag_at_prefix by (meson map_mono_prefix prefix_order.order_trans)

lemma sub_orphan_no_open: "\<not> has_open k (sub_orphan k s)"
proof (induction s)
  case Nil
  show ?case by simp
next
  case (Cons x xs)
  show ?case
  proof (cases "tag_at True (open_tag k) (x # xs)")
    case True
    then show ?thesis by simp
  next
    case False
    have "prefix (x # sub_orphan k xs) (x # xs)"
      by (simp add: sub_orphan_prefix)
    with False have "\<not> tag_at True (open_tag k) (x # sub_orphan k xs)"
      using tag_at_mono by blast
    with False Cons show ?thesis by simp
  qed
qed

lemma lstrip_sublist: "suffix (lstrip s) s"
  unfolding lstrip_def by (rule suffix_dropWhile)

lemma rstrip_prefix: "prefix (rstrip s) s"
  unfolding rstrip_def
  by (metis suffix_dropWhile suffix_to_prefix rev_rev_ident)

lemma py_strip_sublist: "sublist (py_strip s) s"
  unfolding py_strip_def
  by (meson lstrip_sublist rstrip_prefix prefix_imp_sublist suffix_imp_sublist sublist_order.order_trans)

lemma lower_nl: "lower_chr (CHR 0x0A) = CHR 0x0A"
  by (simp add: lower_chr_def upper_chars_def lower_chars_def)

lemma open_tag_no_nl: "CHR 0x0A \<notin> set (py_lower (open_tag k))"
  by (cases k) (simp_all add: py_lower_def lower_chr_def upper_chars_def lower_chars_def)

lemma open_tag_lower_nonempty: "py_lower (open_tag k) \<noteq> []"
  by (cases k) (simp_all add: py_lower_def)

lemma split_nl_nonempty: "split_nl s \<noteq> []"
  by (induction s) (auto split: list.splits)

lemma join_nl_Cons: "join_nl ((c # l) # ls) = c # join_nl (l # ls)"
  by (cases ls) simp_all

lemma join_split: "join_nl (split_nl s) = s"
proof (induction s)
  case Nil
  show ?case by simp
next
  case (Cons c cs)
  obtain l ls where sp: "split_nl cs = l # ls"
    using split_nl_nonempty [of cs] by (cases "split_nl cs") auto
  with Cons show ?case
    by (auto simp: join_nl_Cons)
qed

lemma split_no_nl: "l \<in> set (split_nl s) \<Longrightarrow> CHR 0x0A \<notin> set l"
  by (induction s arbitrary: l) (auto split: if_splits list.splits)

lemma split_nl_line: "CHR 0x0A \<notin> set l \<Longrightarrow> split_nl (l @ CHR 0x0A # r) = l # split_nl r"
  by (induction l) auto

lemma split_nl_single: "CHR 0x0A \<notin> set l \<Longrightarrow> split_nl l = [l]"
  by (induction l) auto

lemma split_join: "ls \<noteq> [] \<Longrightarrow> \<forall>l\<in>set ls. CHR 0x0A \<notin> set l \<Longrightarrow> split_nl (join_nl ls) = ls"
  by (induction ls rule: join_nl.induct) (auto simp: split_nl_line split_nl_single)

lemma sublist_join:
  assumes "CHR 0x0A \<notin> set w" "w \<noteq> []"
  shows "sublist w (join_nl ls) \<Longrightarrow> \<exists>l\<in>set ls. sublist w l"
proof (induction ls rule: join_nl.induct)
  case 1
  with assms show ?case by simp
next
  case (2 l)
  then show ?case by simp
next
  case (3 l m ls)
  from 3(2) have "sublist w (l @ CHR 0x0A # join_nl (m # ls))" by simp
  then consider (a) "sublist w l" | (b) "sublist w (CHR 0x0A # join_nl (m # ls))"
    | (c) w1 w2 where "w = w1 @ w2" "suffix w1 l" "prefix w2 (CHR 0x0A # join_nl (m # ls))"
    unfolding sublist_append by blast
  then show ?case
  proof cases
    case a
    then show ?thesis by simp
  next
    case b
    then have "prefix w (CHR 0x0A # join_nl (m # ls)) \<or> sublist w (join_nl (m # ls))"
      by (simp add: sublist_Cons_right)
    moreover have "\<not> prefix w (CHR 0x0A # join_nl (m # ls))"
      using assms by (cases w) auto
    ultimately show ?thesis using 3(1) by auto
  next
    case c
    have "w2 = []"
      using c(1,3) assms(1) by (cases w2) auto
    with c have "suffix w l" by simp
    then show ?thesis by (auto intro: suffix_imp_sublist)
  qed
qed

lemma py_lower_join: "py_lower (join_nl ls) = join_nl (map py_lower ls)"
  by (induction ls rule: join_nl.induct) (simp_all add: py_lower_def lower_nl)

lemma has_open_join: "has_open k (join_nl ls) \<Longrightarrow> \<exists>l\<in>set ls. has_open k l"
  unfolding has_open_sublist py_lower_join
  using sublist_join [OF open_tag_no_nl open_tag_lower_nonempty, of k "map py_lower ls"]
  by auto

lemma has_open_lines: "l \<in> set (split_nl s) \<Longrightarrow> has_open k l \<Longrightarrow> has_open k s"
proof -
  assume l: "l \<in> set (split_nl s)" and h: "has_open k l"
  from l obtain xs ys where "split_nl s = xs @ l # ys"
    by (auto simp: in_set_conv_decomp)
  have "sublist l (join_nl ls)" if "l \<in> set ls" for ls
    using that by (induction ls rule: join_nl.induct) (auto simp: sublist_append sublist_Cons_right)
  from this [OF l] have "sublist l s" by (simp add: join_split)
  with h show ?thesis by (rule has_open_mono [rotated])
qed

lemma lstrip_Cons: "lstrip (c # s) = (if is_space c then lstrip s else c # s)"
  by (simp add: lstrip_def)

lemma rstrip_snoc: "rstrip (s @ [c]) = (if is_space c then rstrip s else s @ [c])"
  by (simp add: rstrip_def)

lemma rstrip_Nil: "rstrip [] = []"
  by (simp add: rstrip_def)

lemma lstrip_snoc_space:
  "is_space c \<Longrightarrow> lstrip (l @ [c]) = (if lstrip l = [] then [] else lstrip l @ [c])"
  by (auto simp: lstrip_def dropWhile_append dropWhile_eq_Nil_conv)

lemma py_strip_Cons_space: "is_space c \<Longrightarrow> py_strip (c # l) = py_strip l"
  by (simp add: py_strip_def lstrip_Cons)

lemma py_strip_snoc_space: "is_space c \<Longrightarrow> py_strip (l @ [c]) = py_strip l"
  by (simp add: py_strip_def lstrip_snoc_space rstrip_snoc rstrip_Nil)

lemma split_nl_snoc:
  "split_nl (s @ [c]) =
     (if c = CHR 0x0A then split_nl s @ [[]]
      else butlast (split_nl s) @ [last (split_nl s) @ [c]])"
proof (induction s)
  case Nil
  show ?case by simp
next
  case (Cons x xs)
  obtain l ls where sp: "split_nl xs = l # ls"
    using split_nl_nonempty [of xs] by (cases "split_nl xs") auto
  with Cons show ?case
    by (auto split: list.splits simp: split_nl_nonempty)
qed

lemma lines_lstrip:
  "l \<in> set (split_nl (lstrip j)) \<Longrightarrow> \<exists>l'\<in>set (split_nl j). py_strip l = py_strip l'"
proof (induction j)
  case Nil
  then show ?case by (simp add: lstrip_def)
next
  case (Cons c cs)
  show ?case
  proof (cases "is_space c")
    case False
    with Cons.prems show ?thesis by (auto simp: lstrip_Cons)
  next
    case True
    with Cons obtain l' where l': "l' \<in> set (split_nl cs)" "py_strip l = py_strip l'"
      by (auto simp: lstrip_Cons)
    obtain l0 ls where sp: "split_nl cs = l0 # ls"
      using split_nl_nonempty [of cs] by (cases "split_nl cs") auto
    show ?thesis
    proof (cases "c = CHR 0x0A")
      case True
      with l' show ?thesis by auto
    next
      case False
      with sp l' \<open>is_space c\<close> show ?thesis
        by (auto simp: py_strip_Cons_space)
    qed
  qed
qed

lemma lines_rstrip:
  "l \<in> set (split_nl (rstrip j)) \<Longrightarrow> \<exists>l'\<in>set (split_nl j). py_strip l = py_strip l'"
proof (induction j rule: rev_induct)
  case Nil
  then show ?case by (simp add: rstrip_def)
next
  case (snoc c cs)
  show ?case
  proof (cases "is_space c")
    case False
    with snoc.prems show ?thesis by (auto simp: rstrip_snoc)
  next
    case True
    with snoc obtain l' where l': "l' \<in> set (split_nl cs)" "py_strip l = py_strip l'"
      by (auto simp: rstrip_snoc)
    have ne: "split_nl cs \<noteq> []" by (rule split_nl_nonempty)
    show ?thesis
    proof (cases "c = CHR 0x0A")
      case True
      with l' show ?thesis by (auto simp: split_nl_snoc)
    next
      case False
      from ne l'(1) have "l' \<in> set (butlast (split_nl cs)) \<or> l' = last (split_nl cs)"
        by (metis append_butlast_last_id in_set_conv_decomp rotate1.simps(2) set_ConsD set_rotate1)
      with False l'(2) \<open>is_space c\<close> show ?thesis
        by (auto simp: split_nl_snoc py_strip_snoc_space)
    qed
  qed
qed

lemma lines_py_strip:
  assumes "l \<in> set (split_nl (py_strip j))"
  shows "\<exists>l'\<in>set (split_nl j). py_strip l = py_strip l'"
proof -
  from assms lines_rstrip [of l "lstrip j"]
  obtain l1 where "l1 \<in> set (split_nl (lstrip j))" "py_strip l = py_strip l1"
    by (auto simp: py_strip_def)
  with lines_lstrip [of l1 j] show ?thesis by auto
qed

lemma py_strip_idem: "py_strip (py_strip s) = py_strip s"
proof -
  have a: "lstrip (rstrip t) = rstrip t" if "lstrip t = t" for t
  proof (cases "t = []")
    case True
    then show ?thesis by (simp add: rstrip_def lstrip_def)
  next
    case False
    with that have "\<not> is_space (hd t)"
      by (metis lstrip_def hd_dropWhile)
    moreover have "rstrip t = [] \<or> hd (rstrip t) = hd t"
      using rstrip_prefix [of t] by (cases "rstrip t") (auto simp: prefix_def)
    ultimately show ?thesis
      by (cases "rstrip t") (auto simp: lstrip_def)
  qed
  have b: "lstrip (lstrip t) = lstrip t" for t
    by (simp add: lstrip_def)
  have c: "rstrip (rstrip t) = rstrip t" for t
    by (simp add: rstrip_def)
  show ?thesis
    by (simp add: py_strip_def a [OF b] c)
qed

lemma py_strip_Nil: "py_strip [] = []"
  by (simp add: py_strip_def lstrip_def rstrip_def)

lemma orphans_no_open:
  "\<not> has_open k (sub_orphan STORE_PREFERENCE (sub_orphan STORE_PERSONAL (sub_orphan SESSION_DATA t)))"
proof (cases k)
  case SESSION_DATA
  have "prefix (sub_orphan STORE_PREFERENCE (sub_orphan STORE_PERSONAL (sub_orphan SESSION_DATA t)))
          (sub_orphan SESSION_DATA t)"
    by (meson sub_orphan_prefix prefix_order.order_trans)
  then show ?thesis
    using has_open_mono sub_orphan_no_open [of SESSION_DATA t] SESSION_DATA
    by (blast intro: prefix_imp_sublist)
next
  case STORE_PERSONAL
  have "prefix (sub_orphan STORE_PREFERENCE (sub_orphan STORE_PERSONAL (sub_orphan SESSION_DATA t)))
          (sub_orphan STORE_PERSONAL (sub_orphan SESSION_DATA t))"
    by (rule sub_orphan_prefix)
  then show ?thesis
    using has_open_mono sub_orphan_no_open [of STORE_PERSONAL "sub_orphan SESSION_DATA t"] STORE_PERSONAL
    by (blast intro: prefix_imp_sublist)
next
  case STORE_PREFERENCE
  then show ?thesis by (simp add: sub_orphan_no_open)
qed

lemma kept_lines_no_open:
  assumes "\<not> has_open k t"
  shows "\<not> has_open k (py_strip (join_nl (filter keep_line (split_nl t))))"
proof
  assume "has_open k (py_strip (join_nl (filter keep_line (split_nl t))))"
  then have "has_open k (join_nl (filter keep_line (split_nl t)))"
    using has_open_mono py_strip_sublist by blast
  then obtain l where "l \<in> set (split_nl t)" "has_open k l"
    using has_open_join by fastforce
  then have "has_open k t" by (rule has_open_lines)
  with assms show False by simp
qed

lemma kept_lines_fixed:
  assumes r: "r = py_strip (join_nl (filter keep_line (split_nl t)))" and ne: "r \<noteq> []"
  shows "filter keep_line (split_nl r) = split_nl r"
proof -
  let ?out = "filter keep_line (split_nl t)"
  from r ne have out: "?out \<noteq> []"
    by (auto simp: py_strip_Nil)
  have "\<forall>l\<in>set ?out. CHR 0x0A \<notin> set l"
    by (auto dest: split_no_nl)
  with out have sj: "split_nl (join_nl ?out) = ?out"
    by (rule split_join)
  have "keep_line l" if "l \<in> set (split_nl r)" for l
  proof -
    from that r lines_py_strip [of l "join_nl ?out"]
    obtain l' where "l' \<in> set (split_nl (join_nl ?out))" "py_strip l = py_strip l'"
      by auto
    with sj have "keep_line l'" "py_strip l = py_strip l'" by auto
    then show ?thesis by (simp add: keep_line_def)
  qed
  then show ?thesis by (simp add: filter_id_conv)
qed

lemma sanitize_unfold:
  "sanitize_response_for_user text =
     (if text = [] \<or> py_strip text = [] then text
      else py_strip (join_nl (filter keep_line (split_nl
             (sub_orphan STORE_PREFERENCE (sub_orphan STORE_PERSONAL (sub_orphan SESSION_DATA
               (strip_closed_loop STORE_PREFERENCE (strip_closed_loop STORE_PERSONAL
                 (strip_closed_loop SESSION_DATA text)))))))))) "
  unfolding sanitize_response_for_user_def keep_line_def Let_def ..

text \<open>
  The session-data extractor, for its part, leaves no opening session-data tag in the
  text it returns, closed or not.
\<close>

lemma session_data_extractor_strips_orphan:
  assumes "extract_and_strip_session_data loads raw = Inr (updates, stripped)"
  shows "\<not> has_open SESSION_DATA stripped"
proof -
  from assms have "stripped =
      py_strip (sub_orphan SESSION_DATA (strip_closed_loop SESSION_DATA raw))"
    by (auto simp: extract_and_strip_session_data_def Let_def split: sum.splits)
  moreover have
    "\<not> has_open SESSION_DATA (sub_orphan SESSION_DATA (strip_closed_loop SESSION_DATA raw))"
    by (rule sub_orphan_no_open)
  ultimately show ?thesis
    using has_open_mono py_strip_sublist by blast
qed

text \<open>
  Claim C3. The user-facing sanitizer is idempotent: sanitizing a sanitized text changes
  nothing, for every text.
\<close>

theorem sanitize_idempotent:
  "sanitize_response_for_user (sanitize_response_for_user s) = sanitize_response_for_user s"
proof (cases "s = [] \<or> py_strip s = []")
  case True
  then show ?thesis by (simp add: sanitize_response_for_user_def)
next
  case False
  define t where "t = sub_orphan STORE_PREFERENCE (sub_orphan STORE_PERSONAL (sub_orphan SESSION_DATA
               (strip_closed_loop STORE_PREFERENCE (strip_closed_loop STORE_PERSONAL
                 (strip_closed_loop SESSION_DATA s)))))"
  define r where "r = py_strip (join_nl (filter keep_line (split_nl t)))"
  from False have sr: "sanitize_response_for_user s = r"
    by (simp add: sanitize_unfold r_def t_def)
  show ?thesis
  proof (cases "r = []")
    case True
    with sr show ?thesis by (simp add: sanitize_response_for_user_def)
  next
    case ne: False
    have no: "\<not> has_open k r" for k
      unfolding r_def by (rule kept_lines_no_open) (simp add: t_def orphans_no_open)
    have st: "py_strip r = r"
      by (simp add: r_def py_strip_idem)
    have fx: "filter keep_line (split_nl r) = split_nl r"
      using r_def ne by (rule kept_lines_fixed)
    have "sanitize_response_for_user r = py_strip (join_nl (filter keep_line (split_nl r)))"
      using ne st by (simp add: sanitize_unfold no no_open_loop no_open_orphan)
    also have "\<dots> = r"
      by (simp add: fx join_split st)
    finally show ?thesis by (simp add: sr)
  qed
qed

section \<open>Properties of the repository\<close>

lemma dict_update_empty: "dict_update d [] = d"
  by (simp add: dict_update_def)

text \<open>
  Claim C4, as stated, fails for the repository operation: merging the empty update into
  an existing session sets a new time stamp and commits.
\<close>

theorem empty_update_bumps_timestamp:
  "update_session_state env0 db0 ''s1'' [] \<noteq> Inr db0
   \<and> map s_updated_at (sessions db0) = [1]
   \<and> (case update_session_state env0 db0 ''s1'' [] of
         Inl err \<Rightarrow> False
       | Inr d' \<Rightarrow> map s_updated_at (sessions d') = [7] \<and> commits d' = commits db0 + 1)"
  by (simp add: update_session_state_def get_session_def db0_def env0_def dict_update_def
      state_or_empty_def)

text \<open>
  Claim C4, amended. The guard is in the caller: a turn whose extracted session data is
  empty does not call the merge, so the database (state, time stamp, commits) is what it
  was. The merge itself, given the empty update for an existing session, keeps the keys
  and values of the state, sets \<open>updated_at\<close> to the clock reading and commits once.
\<close>

theorem empty_update_guarded_by_caller:
  "(extract_and_strip_session_data loads raw = Inr ([], stripped) \<longrightarrow>
      process_message_step7 loads e d session_id raw = Inr (d, [], stripped))
   \<and> (get_session d session_id = Inr (Some session) \<longrightarrow>
      update_session_state e d session_id [] =
        Inr (d\<lparr>sessions := map (\<lambda>s. if s_id s = session_id
                                      then s\<lparr>s_state := Some (state_or_empty session),
                                             s_updated_at := now e\<rparr>
                                      else s) (sessions d),
              commits := commits d + 1\<rparr>))"
  by (auto simp: process_message_step7_def update_session_state_def dict_update_empty)

theorem empty_update_guarded_by_caller_witness:
  "extract_and_strip_session_data (\<lambda>s. Inl JSONDecodeError) ''hello'' = Inr ([], ''hello'')
   \<and> process_message_step7 (\<lambda>s. Inl JSONDecodeError) env0 db0 ''s1'' ''hello''
       = Inr (db0, [], ''hello'')
   \<and> get_session db0 ''s1'' = Inr (Some (hd (sessions db0)))
   \<and> update_session_state env0 db0 ''s1'' [] =
        Inr (db0\<lparr>sessions := [(hd (sessions db0))\<lparr>s_updated_at := 7\<rparr>], commits := 1\<rparr>)"
proof -
  have a: "extract_and_strip_session_data (\<lambda>s. Inl JSONDecodeError) ''hello''
      = Inr ([], ''hello'')"
    by code_simp
  have b: "get_session db0 ''s1'' = Inr (Some (hd (sessions db0)))"
    by (simp add: get_session_def db0_def)
  from empty_update_guarded_by_caller
         [of "\<lambda>s. Inl JSONDecodeError" "''hello''" "''hello''" env0 db0 "''s1''"
             "hd (sessions db0)"] a b
  show ?thesis
    by (auto simp: db0_def env0_def state_or_empty_def)
qed

text \<open>
  Claim C10. \<open>update_session_state\<close> for a session id that no session has returns
  normally and leaves the database as it was: no state written, no session created, no
  commit.
\<close>

theorem update_session_state_unknown_session:
  assumes "filter (\<lambda>s. s_id s = session_id) (sessions d) = []"
  shows "update_session_state e d session_id state = Inr d"
  using assms by (simp add: update_session_state_def get_session_def)

theorem update_session_state_unknown_session_witness:
  "filter (\<lambda>s. s_id s = ''nope'') (sessions db0) = []
   \<and> update_session_state env0 db0 ''nope'' [(''y'', JInt 3)] = Inr db0"
  using update_session_state_unknown_session [of "''nope''" db0 env0 "[(''y'', JInt 3)]"]
  by (simp add: db0_def)

lemma upsert_existing:
  assumes "filter (memory_of user_id key) (memories d) = [m]"
  shows "upsert_memory e d user_id memory_type key value confidence =
           Inr (m\<lparr>m_value := value, m_confidence := confidence, m_updated_at := now e\<rparr>,
                d\<lparr>memories := map (\<lambda>r. if memory_of user_id key r
                                         then m\<lparr>m_value := value, m_confidence := confidence,
                                                m_updated_at := now e\<rparr>
                                         else r) (memories d),
                  commits := commits d + 1\<rparr>)"
  using assms by (simp add: upsert_memory_def Let_def)

lemma filter_single_map:
  assumes "filter P xs = [m]" "P m'"
  shows "filter P (map (\<lambda>r. if P r then m' else r) xs) = [m']"
  using assms
proof (induction xs)
  case Nil
  then show ?case by simp
next
  case (Cons a xs)
  show ?case
  proof (cases "P a")
    case True
    with Cons.prems have "filter P xs = []" by simp
    then have "\<forall>x\<in>set xs. \<not> P x" by (simp add: filter_empty_conv)
    then have "filter P (map (\<lambda>r. if P r then m' else r) xs) = []"
      by (induction xs) auto
    with True Cons.prems show ?thesis by simp
  next
    case False
    with Cons show ?thesis by simp
  qed
qed

lemma filter_single_memory_of:
  "filter (memory_of user_id key) xs = [m] \<Longrightarrow> memory_of user_id key m"
proof -
  assume "filter (memory_of user_id key) xs = [m]"
  then have "m \<in> set (filter (memory_of user_id key) xs)" by simp
  then show ?thesis by simp
qed

lemma upsert_existing_keeps_type:
  assumes "filter (memory_of user_id key) (memories d) = [m]"
  shows "\<exists>m' d'. upsert_memory e d user_id memory_type key value confidence = Inr (m', d')
           \<and> m' = m\<lparr>m_value := value, m_confidence := confidence, m_updated_at := now e\<rparr>
           \<and> m_type m' = m_type m
           \<and> filter (memory_of user_id key) (memories d') = [m']
           \<and> length (memories d') = length (memories d)"
proof -
  let ?m' = "m\<lparr>m_value := value, m_confidence := confidence, m_updated_at := now e\<rparr>"
  have "memory_of user_id key ?m'"
    using filter_single_memory_of [OF assms] by (simp add: memory_of_def)
  with assms have "filter (memory_of user_id key)
      (map (\<lambda>r. if memory_of user_id key r then ?m' else r) (memories d)) = [?m']"
    by (rule filter_single_map)
  then show ?thesis
    by (simp add: upsert_existing [OF assms])
qed

lemma upsert_all_type:
  assumes "filter (memory_of user_id key) (memories d) = [m]"
  shows "\<exists>m' d'. upsert_all d user_id key calls = Inr d'
           \<and> filter (memory_of user_id key) (memories d') = [m'] \<and> m_type m' = m_type m"
  using assms
proof (induction calls arbitrary: d m)
  case Nil
  then show ?case by simp
next
  case (Cons c calls)
  obtain e ty v cf where c: "c = (e, ty, v, cf)" by (cases c)
  from upsert_existing_keeps_type [OF Cons.prems, of e ty v cf]
  obtain m1 d1 where u: "upsert_memory e d user_id ty key v cf = Inr (m1, d1)"
    and t: "m_type m1 = m_type m" and f: "filter (memory_of user_id key) (memories d1) = [m1]"
    by blast
  from Cons.IH [OF f] t u c show ?case by auto
qed

lemma upsert_new:
  assumes "filter (memory_of user_id key) (memories d) = []"
  shows "\<exists>m' d'. upsert_memory e d user_id memory_type key value confidence = Inr (m', d')
           \<and> m_type m' = memory_type
           \<and> filter (memory_of user_id key) (memories d') = [m']"
  using assms by (simp add: upsert_memory_def Let_def memory_of_def)

text \<open>
  Claim C9. An upsert for a (user, key) pair that has a record updates the value, the
  confidence and \<open>updated_at\<close> of that record and leaves its type alone, whatever type the
  call passes; the pair still has exactly one record and no record is added. So the type
  given when the record is created stays through every later upsert of the key.
\<close>

theorem upsert_memory_keeps_type:
  "(filter (memory_of user_id key) (memories d) = [m] \<longrightarrow>
      (\<exists>m' d'. upsert_memory e d user_id memory_type key value confidence = Inr (m', d')
         \<and> m' = m\<lparr>m_value := value, m_confidence := confidence, m_updated_at := now e\<rparr>
         \<and> m_type m' = m_type m
         \<and> filter (memory_of user_id key) (memories d') = [m']
         \<and> length (memories d') = length (memories d)))
   \<and> (filter (memory_of user_id key) (memories d) = [] \<longrightarrow>
      (\<exists>m1 d1. upsert_memory e d user_id memory_type key value confidence = Inr (m1, d1)
         \<and> m_type m1 = memory_type
         \<and> (\<forall>calls. \<exists>m' d'. upsert_all d1 user_id key calls = Inr d'
              \<and> filter (memory_of user_id key) (memories d') = [m']
              \<and> m_type m' = memory_type)))"
proof (intro conjI impI)
  assume "filter (memory_of user_id key) (memories d) = [m]"
  then show "\<exists>m' d'. upsert_memory e d user_id memory_type key value confidence = Inr (m', d')
         \<and> m' = m\<lparr>m_value := value, m_confidence := confidence, m_updated_at := now e\<rparr>
         \<and> m_type m' = m_type m
         \<and> filter (memory_of user_id key) (memories d') = [m']
         \<and> length (memories d') = length (memories d)"
    by (rule upsert_existing_keeps_type)
next
  assume "filter (memory_of user_id key) (memories d) = []"
  from upsert_new [OF this, of e memory_type "value" confidence]
  obtain m1 d1 where u: "upsert_memory e d user_id memory_type key value confidence = Inr (m1, d1)"
    and t: "m_type m1 = memory_type"
    and f: "filter (memory_of user_id key) (memories d1) = [m1]"
    by blast
  from upsert_all_type [OF f] t
  have "\<forall>calls. \<exists>m' d'. upsert_all d1 user_id key calls = Inr d'
              \<and> filter (memory_of user_id key) (memories d') = [m']
              \<and> m_type m' = memory_type"
    by simp
  with u t show "\<exists>m1 d1. upsert_memory e d user_id memory_type key value confidence = Inr (m1, d1)
         \<and> m_type m1 = memory_type
         \<and> (\<forall>calls. \<exists>m' d'. upsert_all d1 user_id key calls = Inr d'
              \<and> filter (memory_of user_id key) (memories d') = [m']
              \<and> m_type m' = memory_type)"
    by blast
qed

theorem upsert_memory_keeps_type_witness:
  "filter (memory_of ''u1'' ''display_name'') (memories db0) = [hd (memories db0)]
   \<and> m_type (hd (memories db0)) = ''personal''
   \<and> (\<exists>m' d'. upsert_memory env0 db0 ''u1'' ''preference'' ''display_name'' ''Sam'' 1
                  = Inr (m', d')
         \<and> m_value m' = ''Sam'' \<and> m_type m' = ''personal'' \<and> memories d' = [m'])
   \<and> filter (memory_of ''u1'' ''timezone'') (memories db0) = []
   \<and> (\<exists>m1 d1. upsert_memory env0 db0 ''u1'' ''personal'' ''timezone'' ''UTC'' 1 = Inr (m1, d1)
         \<and> (\<exists>m' d'. upsert_all d1 ''u1'' ''timezone'' [(env0, ''intent'', ''CET'', 1)] = Inr d'
               \<and> filter (memory_of ''u1'' ''timezone'') (memories d') = [m']
               \<and> m_type m' = ''personal''))"
proof -
  have a: "filter (memory_of ''u1'' ''display_name'') (memories db0) = [hd (memories db0)]"
    by (simp add: db0_def memory_of_def)
  have b: "filter (memory_of ''u1'' ''timezone'') (memories db0) = []"
    by (simp add: db0_def memory_of_def)
  from upsert_memory_keeps_type
         [of "''u1''" "''display_name''" db0 "hd (memories db0)" env0 "''preference''" "''Sam''" 1] a
  obtain m' d' where 1:
    "upsert_memory env0 db0 ''u1'' ''preference'' ''display_name'' ''Sam'' 1 = Inr (m', d')"
    "m' = (hd (memories db0))\<lparr>m_value := ''Sam'', m_confidence := 1, m_updated_at := now env0\<rparr>"
    "m_type m' = m_type (hd (memories db0))"
    "filter (memory_of ''u1'' ''display_name'') (memories d') = [m']"
    "length (memories d') = length (memories db0)"
    by blast
  from 1(4,5) have "memories d' = [m']"
    by (cases "memories d'") (auto simp: db0_def split: if_splits)
  with 1 have c: "\<exists>m' d'. upsert_memory env0 db0 ''u1'' ''preference'' ''display_name'' ''Sam'' 1
                  = Inr (m', d')
         \<and> m_value m' = ''Sam'' \<and> m_type m' = ''personal'' \<and> memories d' = [m']"
    by (simp add: db0_def)
  from upsert_memory_keeps_type
         [of "''u1''" "''timezone''" db0 "hd (memories db0)" env0 "''personal''" "''UTC''" 1] b
  have d: "\<exists>m1 d1. upsert_memory env0 db0 ''u1'' ''personal'' ''timezone'' ''UTC'' 1 = Inr (m1, d1)
         \<and> (\<exists>m' d'. upsert_all d1 ''u1'' ''timezone'' [(env0, ''intent'', ''CET'', 1)] = Inr d'
               \<and> filter (memory_of ''u1'' ''timezone'') (memories d') = [m']
               \<and> m_type m' = ''personal'')"
    by blast
  from a b c d show ?thesis
    by (simp add: db0_def)
qed

section \<open>Properties of history compaction\<close>

lemma build_blocks_step:
  "build_blocks (Inr sn) (Inr sc) (Inr sd) nu cu du (b # bs) =
     append_block
       \<lparr>markdown = (if b_type b \<noteq> ''text'' \<and> b_type b = ''html_component'' \<and> or_empty (b_template b) \<noteq> []
                    then [] else py_strip (or_empty (b_markdown b))),
        html_tools_data = (case block_kind b of None \<Rightarrow> []
                           | Some k \<Rightarrow> if used_of k nu cu du then [] else summary_of k sn sc sd)\<rparr>
       (build_blocks (Inr sn) (Inr sc) (Inr sd)
          (nu \<or> block_kind b = Some NFT_LIST)
          (cu \<or> block_kind b = Some COLLECTION_LIST)
          (du \<or> block_kind b = Some DETAIL) bs)"
  by (simp add: block_kind_def Let_def)

lemma used_of_False: "used_of k False False False = False"
  by (cases k) auto

lemma used_of_step:
  "used_of k (nu \<or> kb = Some NFT_LIST) (cu \<or> kb = Some COLLECTION_LIST) (du \<or> kb = Some DETAIL)
     = (used_of k nu cu du \<or> kb = Some k)"
  by (cases k) auto

lemma build_blocks_flags:
  "\<exists>out. build_blocks (Inr sn :: 'e + string) (Inr sc) (Inr sd) nu cu du bs = Inr out
     \<and> length out = length bs
     \<and> (\<forall>i<length bs. \<forall>k. block_kind (bs ! i) = Some k \<longrightarrow>
          html_tools_data (out ! i) =
            (if used_of k nu cu du \<or> Some k \<in> set (map block_kind (take i bs)) then []
             else summary_of k sn sc sd))"
proof (induction bs arbitrary: nu cu du)
  case Nil
  show ?case by simp
next
  case (Cons b bs)
  let ?nu = "nu \<or> block_kind b = Some NFT_LIST"
  let ?cu = "cu \<or> block_kind b = Some COLLECTION_LIST"
  let ?du = "du \<or> block_kind b = Some DETAIL"
  define x where "x = \<lparr>markdown = (if b_type b \<noteq> ''text'' \<and> b_type b = ''html_component'' \<and> or_empty (b_template b) \<noteq> []
                    then [] else py_strip (or_empty (b_markdown b))),
        html_tools_data = (case block_kind b of None \<Rightarrow> []
                           | Some k \<Rightarrow> if used_of k nu cu du then [] else summary_of k sn sc sd)\<rparr>"
  have x: "build_blocks (Inr sn :: 'e + string) (Inr sc) (Inr sd) nu cu du (b # bs) =
         append_block x (build_blocks (Inr sn :: 'e + string) (Inr sc) (Inr sd) ?nu ?cu ?du bs)"
    unfolding x_def by (rule build_blocks_step)
  have hx: "html_tools_data x = (if used_of k nu cu du then [] else summary_of k sn sc sd)"
    if "block_kind b = Some k" for k
    using that by (simp add: x_def)
  from Cons [of ?nu ?cu ?du]
  obtain out where H: "build_blocks (Inr sn :: 'e + string) (Inr sc) (Inr sd) ?nu ?cu ?du bs = Inr out
    \<and> length out = length bs
    \<and> (\<forall>i<length bs. \<forall>k. block_kind (bs ! i) = Some k \<longrightarrow>
          html_tools_data (out ! i) =
            (if used_of k ?nu ?cu ?du \<or> Some k \<in> set (map block_kind (take i bs)) then []
             else summary_of k sn sc sd))" ..
  note o = H [THEN conjunct1] and len = H [THEN conjunct2, THEN conjunct1]
    and ho = H [THEN conjunct2, THEN conjunct2]
  have r: "build_blocks (Inr sn :: 'e + string) (Inr sc) (Inr sd) nu cu du (b # bs) = Inr (x # out)"
    by (simp only: x o append_block_def sum.case)
  have "html_tools_data ((x # out) ! i) =
            (if used_of k nu cu du \<or> Some k \<in> set (map block_kind (take i (b # bs))) then []
             else summary_of k sn sc sd)"
    if i: "i < length (b # bs)" and k: "block_kind ((b # bs) ! i) = Some k" for i k
  proof (cases i)
    case 0
    with k hx [of k] show ?thesis by simp
  next
    case (Suc j)
    with i k have "j < length bs" "block_kind (bs ! j) = Some k" by simp_all
    from ho [rule_format, OF this] Suc show ?thesis
      by (simp only: used_of_step nth_Cons_Suc take_Suc_Cons list.map list.set) auto
  qed
  with r len show ?case by simp
qed

text \<open>
  Claim C8. With summaries that evaluate to a string, compaction yields one stored block
  per block, and a component block of some kind carries the summary of that kind exactly
  when no earlier block of the turn has the same kind; a later one carries the empty
  string.
\<close>

theorem summary_consumed_once:
  "\<exists>out. build_blocks_json_for_storage (Inr sn :: 'e + string) (Inr sc) (Inr sd) blocks = Inr out
     \<and> length out = length blocks
     \<and> (\<forall>i<length blocks. \<forall>k. block_kind (blocks ! i) = Some k \<longrightarrow>
          html_tools_data (out ! i) =
            (if Some k \<in> set (map block_kind (take i blocks)) then []
             else summary_of k sn sc sd))"
  using build_blocks_flags [where ?'e = 'e, of sn sc sd False False False blocks]
  unfolding build_blocks_json_for_storage_def
  by (simp only: used_of_False simp_thms)

theorem summary_consumed_once_witness:
  "(1::nat) < length [component ''grid'', component ''Table'', component ''details'']
   \<and> block_kind ([component ''grid'', component ''Table'', component ''details''] ! 0)
       = Some NFT_LIST
   \<and> block_kind ([component ''grid'', component ''Table'', component ''details''] ! 1)
       = Some NFT_LIST
   \<and> (\<exists>out. build_blocks_json_for_storage (Inr ''N'' :: unit + string) (Inr ''C'') (Inr ''D'')
               [component ''grid'', component ''Table'', component ''details''] = Inr out
         \<and> html_tools_data (out ! 0) = ''N'' \<and> html_tools_data (out ! 1) = [])"
proof -
  let ?bs = "[component ''grid'', component ''Table'', component ''details'']"
  have k0: "block_kind (?bs ! 0) = Some NFT_LIST"
    by (simp add: block_kind_def or_empty_def py_lower_def lower_chr_def upper_chars_def
        lower_chars_def)
  have k1: "block_kind (?bs ! 1) = Some NFT_LIST"
    by (simp add: block_kind_def or_empty_def py_lower_def lower_chr_def upper_chars_def
        lower_chars_def)
  from summary_consumed_once [where ?'e = unit, of "''N''" "''C''" "''D''" ?bs]
  obtain out where o: "build_blocks_json_for_storage (Inr ''N'' :: unit + string) (Inr ''C'')
        (Inr ''D'') ?bs = Inr out"
    and h: "\<forall>i<length ?bs. \<forall>k. block_kind (?bs ! i) = Some k \<longrightarrow>
          html_tools_data (out ! i) =
            (if Some k \<in> set (map block_kind (take i ?bs)) then []
             else summary_of k ''N'' ''C'' ''D'')"
    by blast
  from h [rule_format, of 0 NFT_LIST] k0 have d0: "html_tools_data (out ! 0) = ''N''"
    by simp
  have t1: "take 1 ?bs = [?bs ! 0]" by simp
  from h [rule_format, of 1 NFT_LIST] k1 have
    "html_tools_data (out ! 1) =
       (if Some NFT_LIST \<in> set (map block_kind (take 1 ?bs)) then []
        else summary_of NFT_LIST ''N'' ''C'' ''D'')"
    by simp
  with k0 have d1: "html_tools_data (out ! 1) = []"
    by (simp only: t1 list.map list.set) simp
  from k0 k1 o d0 d1 show ?thesis by simp
qed

section \<open>Properties of the memory write policy\<close>

lemma filter_single_mem: "filter P xs = [m] \<Longrightarrow> m \<in> set xs"
proof -
  assume "filter P xs = [m]"
  then have "m \<in> set (filter P xs)" by simp
  then show ?thesis by simp
qed

lemma filter_weaker: "(\<And>x. Q x \<Longrightarrow> R x) \<Longrightarrow> filter Q (filter R xs) = filter Q xs"
  by (induction xs) auto

lemma filter_map_replace:
  "P m' \<Longrightarrow> filter (\<lambda>r. \<not> P r) (map (\<lambda>r. if P r then m' else r) xs) = filter (\<lambda>r. \<not> P r) xs"
  by (induction xs) auto

lemma upsert_frame:
  assumes "upsert_memory e d u t k v c = Inr (m, d')"
  shows "filter (\<lambda>r. \<not> memory_of u k r) (memories d') = filter (\<lambda>r. \<not> memory_of u k r) (memories d)"
proof (cases "filter (memory_of u k) (memories d)")
  case Nil
  with assms show ?thesis
    by (auto simp: upsert_memory_def Let_def memory_of_def)
next
  case (Cons a rest)
  show ?thesis
  proof (cases rest)
    case Nil
    with Cons have f: "filter (memory_of u k) (memories d) = [a]" by simp
    then have "memory_of u k a" by (rule filter_single_memory_of)
    then have "memory_of u k (a\<lparr>m_value := v, m_confidence := c, m_updated_at := now e\<rparr>)"
      by (simp add: memory_of_def)
    with assms f show ?thesis
      by (auto simp: upsert_memory_def Let_def filter_map_replace)
  next
    case (Cons b zs)
    with \<open>filter (memory_of u k) (memories d) = a # rest\<close> assms show ?thesis
      by (simp add: upsert_memory_def)
  qed
qed

lemma upsert_outside:
  assumes "upsert_memory e d uid t k v c = Inr (m, d')" "k \<in> set personal_keys"
  shows "filter (outside_personal uid) (memories d') = filter (outside_personal uid) (memories d)"
proof -
  have w: "outside_personal uid r \<Longrightarrow> \<not> memory_of uid k r" for r
    using assms(2) by (auto simp: outside_personal_def memory_of_def)
  have "filter (outside_personal uid) (memories d')
      = filter (outside_personal uid) (filter (\<lambda>r. \<not> memory_of uid k r) (memories d'))"
    by (rule filter_weaker [symmetric]) (rule w)
  also have "\<dots> = filter (outside_personal uid) (filter (\<lambda>r. \<not> memory_of uid k r) (memories d))"
    by (simp only: upsert_frame [OF assms(1)])
  also have "\<dots> = filter (outside_personal uid) (memories d)"
    by (rule filter_weaker) (rule w)
  finally show ?thesis .
qed

lemma delete_memories:
  "memories (snd (delete_memories_by_type d u t)) =
     filter (\<lambda>m. \<not> (m_user_id m = u \<and> m_type m = t)) (memories d)"
proof (cases "filter (\<lambda>m. m_user_id m = u \<and> m_type m = t) (memories d) = []")
  case True
  then have "\<forall>m\<in>set (memories d). \<not> (m_user_id m = u \<and> m_type m = t)"
    by (simp add: filter_empty_conv)
  then have "filter (\<lambda>m. \<not> (m_user_id m = u \<and> m_type m = t)) (memories d) = memories d"
    by (simp add: filter_id_conv)
  with True show ?thesis
    by (simp add: delete_memories_by_type_def Let_def)
next
  case False
  then show ?thesis
    by (simp add: delete_memories_by_type_def Let_def)
qed

lemma delete_outside:
  "filter (outside_personal uid) (memories (snd (delete_memories_by_type d uid MEMORY_TYPE_PERSONAL)))
     = filter (outside_personal uid) (memories d)"
  unfolding delete_memories
  by (rule filter_weaker) (auto simp: outside_personal_def)

lemma same_record_refl: "same_record m m"
  by (simp add: same_record_def)

lemma same_record_trans: "same_record a b \<Longrightarrow> same_record b c \<Longrightarrow> same_record a c"
  by (simp add: same_record_def)

lemma upsert_origin:
  assumes "upsert_memory e d u MEMORY_TYPE_PERSONAL k v c = Inr (m, d')"
    and "m' \<in> set (memories d')" "m_type m' \<noteq> MEMORY_TYPE_PERSONAL"
  shows "\<exists>m0\<in>set (memories d). same_record m0 m'"
proof (cases "filter (memory_of u k) (memories d)")
  case Nil
  with assms show ?thesis
    by (auto simp: upsert_memory_def Let_def intro!: bexI [where x = m'] same_record_refl)
next
  case (Cons a rest)
  show ?thesis
  proof (cases rest)
    case Nil
    with Cons have f: "filter (memory_of u k) (memories d) = [a]" by simp
    then have a: "a \<in> set (memories d)" by (rule filter_single_mem)
    let ?a' = "a\<lparr>m_value := v, m_confidence := c, m_updated_at := now e\<rparr>"
    from assms(1) f have "memories d' = map (\<lambda>r. if memory_of u k r then ?a' else r) (memories d)"
      by (auto simp: upsert_memory_def Let_def)
    with assms(2) have "m' = ?a' \<or> m' \<in> set (memories d)" by auto
    then show ?thesis
    proof
      assume "m' = ?a'"
      then have "same_record a m'" by (simp add: same_record_def)
      with a show ?thesis by blast
    next
      assume "m' \<in> set (memories d)"
      then show ?thesis by (blast intro: same_record_refl)
    qed
  next
    case (Cons b zs)
    with \<open>filter (memory_of u k) (memories d) = a # rest\<close> assms(1) show ?thesis
      by (simp add: upsert_memory_def)
  qed
qed

lemma run_ops_personal:
  assumes "list_all (personal_write uid) ops" "run_ops envs i d ops = Inr d'"
  shows "filter (outside_personal uid) (memories d') = filter (outside_personal uid) (memories d)
       \<and> (\<forall>m'\<in>set (memories d'). m_type m' \<noteq> MEMORY_TYPE_PERSONAL \<longrightarrow>
            (\<exists>m0\<in>set (memories d). same_record m0 m'))"
  using assms
proof (induction ops arbitrary: i d)
  case Nil
  then show ?case by (auto intro: same_record_refl)
next
  case (Cons op ops)
  show ?case
  proof (cases op)
    case (Upsert u t k v)
    with Cons.prems(1) have u: "u = uid" "t = MEMORY_TYPE_PERSONAL" "k \<in> set personal_keys"
      and rest: "list_all (personal_write uid) ops"
      by simp_all
    from Cons.prems(2) Upsert obtain m d1
      where up: "upsert_memory (envs i) d u t k v 1 = Inr (m, d1)"
        and run: "run_ops envs (Suc i) d1 ops = Inr d'"
      by (auto split: sum.splits)
    from Cons.IH [OF rest run]
    have f1: "filter (outside_personal uid) (memories d') = filter (outside_personal uid) (memories d1)"
      and o1: "\<forall>m'\<in>set (memories d'). m_type m' \<noteq> MEMORY_TYPE_PERSONAL \<longrightarrow>
            (\<exists>m0\<in>set (memories d1). same_record m0 m')"
      by simp_all
    from up u have f0: "filter (outside_personal uid) (memories d1) = filter (outside_personal uid) (memories d)"
      by (auto intro: upsert_outside)
    have "\<exists>m0\<in>set (memories d). same_record m0 m'"
      if m': "m' \<in> set (memories d')" "m_type m' \<noteq> MEMORY_TYPE_PERSONAL" for m'
    proof -
      from o1 m' obtain m1 where m1: "m1 \<in> set (memories d1)" "same_record m1 m'" by blast
      with m'(2) have "m_type m1 \<noteq> MEMORY_TYPE_PERSONAL" by (simp add: same_record_def)
      with up u m1(1) upsert_origin [of "envs i" d u k v 1 m d1 m1]
      obtain m0 where "m0 \<in> set (memories d)" "same_record m0 m1" by auto
      with m1(2) show ?thesis by (blast intro: same_record_trans)
    qed
    with f1 f0 show ?thesis by simp
  next
    case (DeleteByType u t)
    with Cons.prems(1) have u: "u = uid" "t = MEMORY_TYPE_PERSONAL"
      and rest: "list_all (personal_write uid) ops"
      by simp_all
    let ?d1 = "snd (delete_memories_by_type d uid MEMORY_TYPE_PERSONAL)"
    from Cons.prems(2) DeleteByType u have run: "run_ops envs (Suc i) ?d1 ops = Inr d'"
      by simp
    from Cons.IH [OF rest run]
    have f1: "filter (outside_personal uid) (memories d') = filter (outside_personal uid) (memories ?d1)"
      and o1: "\<forall>m'\<in>set (memories d'). m_type m' \<noteq> MEMORY_TYPE_PERSONAL \<longrightarrow>
            (\<exists>m0\<in>set (memories ?d1). same_record m0 m')"
      by simp_all
    have "set (memories ?d1) \<subseteq> set (memories d)"
      by (auto simp: delete_memories)
    with o1 have "\<forall>m'\<in>set (memories d'). m_type m' \<noteq> MEMORY_TYPE_PERSONAL \<longrightarrow>
            (\<exists>m0\<in>set (memories d). same_record m0 m')"
      by blast
    with f1 show ?thesis by (simp add: delete_outside)
  qed
qed

lemma name_op_personal: "list_all (personal_write uid) (name_op uid m)"
  by (simp add: name_op_def Let_def personal_keys_def)

lemma name_ops_personal: "list_all (personal_write uid) (name_ops uid msg)"
  by (simp add: name_ops_def name_op_personal split: option.splits)

lemma llm_personal_op_personal:
  "key \<in> set personal_keys \<Longrightarrow> list_all (personal_write uid) (llm_personal_op repr uid personal key n)"
  by (simp add: llm_personal_op_def split: option.splits)

lemma plan_personal:
  assumes "re_search REMEMBER_ASK_PATTERN (py_strip message) = None" "or_dict pref = []"
  shows "list_all (personal_write uid) (memory_plan repr uid message personal pref)"
  using assms
  by (simp add: memory_plan_def Let_def name_ops_personal llm_personal_op_personal personal_keys_def)

text \<open>
  Claim C5. When the message matches the forget-personal pattern, the memory-write step
  is the single call that deletes the personal records of the user: the database
  afterwards has the records of before without those, whatever the two directive payloads
  carry, so no personal (or other) record is written in that turn.
\<close>

theorem forget_branch_exclusive:
  assumes "re_search DONT_REMEMBER_PERSONAL (py_strip message) \<noteq> None"
  shows "memory_plan repr uid message personal pref = [DeleteByType uid MEMORY_TYPE_PERSONAL]
     \<and> extract_and_store_memory repr envs d uid message personal pref
         = Inr (snd (delete_memories_by_type d uid MEMORY_TYPE_PERSONAL))
     \<and> memories (snd (delete_memories_by_type d uid MEMORY_TYPE_PERSONAL))
         = filter (\<lambda>m. \<not> (m_user_id m = uid \<and> m_type m = MEMORY_TYPE_PERSONAL)) (memories d)"
  using assms
  by (simp add: memory_plan_def Let_def extract_and_store_memory_def delete_memories)

theorem forget_branch_exclusive_witness:
  "re_search DONT_REMEMBER_PERSONAL (py_strip ''please forget my details'') \<noteq> None
   \<and> extract_and_store_memory (\<lambda>j. []) envs0 db0 ''u1'' ''please forget my details''
        (Some [(''display_name'', JStr ''Alex'')]) (Some [(''preferred_view'', JStr ''grid'')])
       = Inr (db0\<lparr>memories := [], commits := 1\<rparr>)"
proof -
  have h: "re_search DONT_REMEMBER_PERSONAL (py_strip ''please forget my details'') \<noteq> None"
    by code_simp
  from forget_branch_exclusive [OF h, of "\<lambda>j. []" "''u1''"
      "Some [(''display_name'', JStr ''Alex'')]" "Some [(''preferred_view'', JStr ''grid'')]"
      envs0 db0]
  have "extract_and_store_memory (\<lambda>j. []) envs0 db0 ''u1'' ''please forget my details''
        (Some [(''display_name'', JStr ''Alex'')]) (Some [(''preferred_view'', JStr ''grid'')])
       = Inr (snd (delete_memories_by_type db0 ''u1'' MEMORY_TYPE_PERSONAL))"
    by simp
  also have "snd (delete_memories_by_type db0 ''u1'' MEMORY_TYPE_PERSONAL)
       = db0\<lparr>memories := [], commits := 1\<rparr>"
    by (simp add: delete_memories_by_type_def db0_def MEMORY_TYPE_PERSONAL_def Let_def)
  finally show ?thesis using h by simp
qed

text \<open>
  Claim C7. When the message does not ask to remember and the preference directive is
  empty, every call of the memory-write step concerns the personal details of the user
  (an upsert of type personal on one of the three personal keys, or the deletion of the
  personal records). On the database: every record of another user, and every record of
  the user that neither has a personal key nor is of type personal, is what it was, and no
  record is added among them; a record whose type is not personal afterwards is a record
  that was there before, with the same key and type. So no preference or intent record is
  created, and none kept under a preference or intent key is updated.
\<close>

theorem no_implicit_preference_write:
  assumes "re_search REMEMBER_ASK_PATTERN (py_strip message) = None" "or_dict pref = []"
  shows "list_all (personal_write uid) (memory_plan repr uid message personal pref)
     \<and> (\<forall>d'. extract_and_store_memory repr envs d uid message personal pref = Inr d' \<longrightarrow>
          filter (outside_personal uid) (memories d') = filter (outside_personal uid) (memories d)
          \<and> (\<forall>m'\<in>set (memories d'). m_type m' \<noteq> MEMORY_TYPE_PERSONAL \<longrightarrow>
               (\<exists>m0\<in>set (memories d). same_record m0 m')))"
  using plan_personal [OF assms] run_ops_personal
  unfolding extract_and_store_memory_def by blast

theorem no_implicit_preference_write_witness:
  "re_search REMEMBER_ASK_PATTERN (py_strip ''I like grid view'') = None
   \<and> or_dict None = []
   \<and> memory_plan (\<lambda>j. []) ''u1'' ''I like grid view'' (Some [(''timezone'', JStr ''UTC'')]) None
       = [Upsert ''u1'' ''personal'' ''timezone'' ''UTC'']
   \<and> (\<exists>d'. extract_and_store_memory (\<lambda>j. []) envs0 db1 ''u1'' ''I like grid view''
               (Some [(''timezone'', JStr ''UTC'')]) None = Inr d'
         \<and> filter (outside_personal ''u1'') (memories d') = memories db1
         \<and> length (memories d') = 2)"
proof -
  have h1: "re_search REMEMBER_ASK_PATTERN (py_strip ''I like grid view'') = None"
    by code_simp
  have h2: "or_dict None = []"
    by (simp add: or_dict_def)
  have plan: "memory_plan (\<lambda>j. []) ''u1'' ''I like grid view''
        (Some [(''timezone'', JStr ''UTC'')]) None = [Upsert ''u1'' ''personal'' ''timezone'' ''UTC'']"
    by code_simp
  obtain d' where run: "extract_and_store_memory (\<lambda>j. []) envs0 db1 ''u1'' ''I like grid view''
               (Some [(''timezone'', JStr ''UTC'')]) None = Inr d'"
    and len: "length (memories d') = 2"
    by (simp add: extract_and_store_memory_def plan upsert_memory_def db1_def memory_of_def
        Let_def)
  from no_implicit_preference_write [OF h1 h2, of "''u1''" "\<lambda>j. []"
      "Some [(''timezone'', JStr ''UTC'')]" envs0 db1] run
  have "filter (outside_personal ''u1'') (memories d') = filter (outside_personal ''u1'') (memories db1)"
    by blast
  also have "\<dots> = memories db1"
    by (simp add: db1_def outside_personal_def personal_keys_def KEY_DISPLAY_NAME_def
        KEY_TIMEZONE_def KEY_LANGUAGE_def MEMORY_TYPE_PERSONAL_def)
  finally show ?thesis
    using h1 h2 plan run len by blast
qed

end
